theory Spec2Isabelle
  imports Main "HOL-Library.Word" "HOL-Library.AList"
begin

section \<open>JavaScript strings\<close>

text \<open>
  A JavaScript string is a sequence of UTF-16 code units; \<open>length\<close>, \<open>substring\<close>,
  \<open>split('')\<close>, \<open>charCodeAt\<close> and a regular expression without the \<open>u\<close> flag all work on
  code units. Chinese text does not fit in an 8-bit \<open>char\<close>, so the model keeps the code
  units themselves.
\<close>

type_synonym jschar = "16 word"
type_synonym jsstring = "jschar list"

definition js :: "string \<Rightarrow> jsstring" where
  \<comment> \<open>an ASCII literal as a JavaScript string\<close>
  "js s = map (\<lambda>c. of_nat (of_char c)) s"

definition is_digit :: "jschar \<Rightarrow> bool" where
  "is_digit c = (48 \<le> unat c \<and> unat c \<le> 57)"

definition is_upper :: "jschar \<Rightarrow> bool" where
  "is_upper c = (65 \<le> unat c \<and> unat c \<le> 90)"

definition is_lower :: "jschar \<Rightarrow> bool" where
  "is_lower c = (97 \<le> unat c \<and> unat c \<le> 122)"

definition is_cjk :: "jschar \<Rightarrow> bool" where
  \<comment> \<open>the class of code units U+4E00 to U+9FA5\<close>
  "is_cjk c = (19968 \<le> unat c \<and> unat c \<le> 40869)"

definition is_key_char :: "jschar \<Rightarrow> bool" where
  \<comment> \<open>the class \<open>[a-zA-Z0-9_\-\.]\<close> of \<open>validateKey\<close>\<close>
  "is_key_char c =
     (is_lower c \<or> is_upper c \<or> is_digit c \<or> unat c = 95 \<or> unat c = 45 \<or> unat c = 46)"

definition toLowerCase_char :: "jschar \<Rightarrow> jschar" where
  \<comment> \<open>\<open>toLowerCase\<close> on one code unit of \<open>[a-zA-Z0-9]\<close>, the only place the source uses it\<close>
  "toLowerCase_char c = (if is_upper c then c + 32 else c)"

definition digit_char :: "nat \<Rightarrow> jschar" where
  \<comment> \<open>the digit of \<open>Number.prototype.toString(radix)\<close>: \<open>0-9\<close> then \<open>a-z\<close>\<close>
  "digit_char d = (if d < 10 then of_nat (48 + d) else of_nat (87 + d))"

function to_radix :: "nat \<Rightarrow> nat \<Rightarrow> jsstring" where
  "to_radix b n =
     (if b < 2 \<or> n < b then [digit_char n]
      else to_radix b (n div b) @ [digit_char (n mod b)])"
  by pat_completeness auto
termination
  by (relation "measure (\<lambda>(b, n). n)") auto

declare to_radix.simps [simp del]

definition join :: "jsstring \<Rightarrow> jsstring list \<Rightarrow> jsstring" where
  \<comment> \<open>\<open>Array.prototype.join\<close>\<close>
  "join sep xs = (case xs of [] \<Rightarrow> [] | y # ys \<Rightarrow> y @ concat (map (\<lambda>z. sep @ z) ys))"

definition substring0 :: "jsstring \<Rightarrow> int \<Rightarrow> jsstring" where
  \<comment> \<open>\<open>s.substring(0, n)\<close> for an integer \<open>n\<close>: a negative \<open>n\<close> counts as 0\<close>
  "substring0 s n = take (nat n) s"

section \<open>Plain objects and the console\<close>

text \<open>
  A \<open>Record<string, string>\<close> made with \<open>{}\<close> is an ordinary object: its own properties
  are a map from names to strings, and it inherits from \<open>Object.prototype\<close>. An assignment
  \<open>obj[key] = v\<close> of a string creates or updates the own property \<open>key\<close>, with one
  exception: when \<open>key\<close> is \<open>__proto__\<close> and the object has no own property of that name,
  the assignment reaches the setter inherited from \<open>Object.prototype\<close>, which ignores a
  value that is not an object, and the own properties stay as they were.
  \<open>Object.keys\<close>, \<open>Object.entries\<close>, a spread and \<open>JSON.stringify\<close> see the own
  properties only.
\<close>

definition set_property ::
    "(jsstring \<rightharpoonup> jsstring) \<Rightarrow> jsstring \<Rightarrow> jsstring \<Rightarrow> (jsstring \<rightharpoonup> jsstring)" where
  "set_property obj key v =
     (if key = js ''__proto__'' \<and> obj key = None then obj else obj(key \<mapsto> v))"

text \<open>
  Reading \<open>obj[key]\<close> gives the own property when there is one; otherwise what
  \<open>Object.prototype\<close> holds under that name, an object or a function (\<open>constructor\<close>,
  \<open>toString\<close>, the prototype itself under \<open>__proto__\<close>, ...); otherwise \<open>undefined\<close>.
  The table of \<open>Object.prototype\<close> is a parameter: it gives, for each name it holds, the
  string that the value becomes when it is used as a property name.
\<close>

datatype jsvalue = JSString jsstring | JSObject jsstring | JSUndefined

type_synonym prototype = "jsstring \<rightharpoonup> jsstring"

definition get_property :: "prototype \<Rightarrow> (jsstring \<rightharpoonup> jsstring) \<Rightarrow> jsstring \<Rightarrow> jsvalue" where
  "get_property Object_prototype obj key =
     (case obj key of
        Some s \<Rightarrow> JSString s
      | None \<Rightarrow> (case Object_prototype key of
                   Some rendering \<Rightarrow> JSObject rendering
                 | None \<Rightarrow> JSUndefined))"

fun truthy :: "jsvalue \<Rightarrow> bool" where
  "truthy (JSString s) = (s \<noteq> [])"
| "truthy (JSObject rendering) = True"
| "truthy JSUndefined = False"

fun property_key :: "jsvalue \<Rightarrow> jsstring" where
  \<comment> \<open>the name under which \<open>obj[value]\<close> reads and writes\<close>
  "property_key (JSString s) = s"
| "property_key (JSObject rendering) = rendering"
| "property_key JSUndefined = js ''undefined''"

text \<open>
  What the program writes to the console is kept as the list of lines written, each with
  its first argument.
\<close>

datatype console_line = ConsoleLog jsstring | ConsoleWarn jsstring | ConsoleError jsstring

section \<open>KeyGenerator (src/utils/key-generator.ts)\<close>

datatype toneType = ToneNone | ToneNum | ToneSymbol
datatype pinyinType = TypeString | TypeArray
datatype duplicateKeySuffix = Hash

record PinyinOptions =
  toneType :: toneType
  type :: pinyinType

record KeyGenerationConfig =
  maxChineseLength :: int
  hashLength :: int
  reuseExistingKey :: bool
  duplicateKeySuffix :: duplicateKeySuffix
  keyPrefix :: jsstring
  separator :: jsstring
  pinyinOptions :: PinyinOptions

text \<open>
  Two libraries are called and are not part of the repository: \<open>pinyin\<close> of pinyin-pro
  and \<open>createHash('md5')\<close> of Node's crypto. They are parameters of the model. A call of
  \<open>pinyin\<close> that throws is the value \<open>None\<close>.
\<close>

record libs =
  pinyin_array :: "toneType \<Rightarrow> jsstring \<Rightarrow> jsstring list option"
  pinyin_string :: "toneType \<Rightarrow> jsstring \<Rightarrow> jsstring option"
  md5_hex :: "jsstring \<Rightarrow> jsstring"

record KeyGenerator =
  existingKeys :: "jsstring set"
  textToKeyMap :: "jsstring \<rightharpoonup> jsstring"

definition generateHash :: "libs \<Rightarrow> jsstring \<Rightarrow> int \<Rightarrow> jsstring" where
  "generateHash L text len = substring0 (md5_hex L text) len"

definition fallbackKeyGeneration :: "libs \<Rightarrow> jsstring \<Rightarrow> jsstring" where
  "fallbackKeyGeneration L text =
     (let cleaned = filter (\<lambda>c. is_cjk c \<or> is_lower c \<or> is_upper c \<or> is_digit c) text
      in if length cleaned = 0 then generateHash L text 8
         else concat (map (\<lambda>c. if is_cjk c then to_radix 36 (unat c)
                                else [toLowerCase_char c]) cleaned))"

definition convertToPinyin :: "libs \<Rightarrow> KeyGenerationConfig \<Rightarrow> jsstring \<Rightarrow> jsstring" where
  "convertToPinyin L cfg text =
     (if type (pinyinOptions cfg) = TypeArray then
        (case pinyin_array L (toneType (pinyinOptions cfg)) text of
           Some result \<Rightarrow> join (separator cfg) result
         | None \<Rightarrow> fallbackKeyGeneration L text)
      else
        (case pinyin_string L (toneType (pinyinOptions cfg)) text of
           Some result \<Rightarrow> result
         | None \<Rightarrow> fallbackKeyGeneration L text))"

definition limitLength :: "libs \<Rightarrow> KeyGenerationConfig \<Rightarrow> jsstring \<Rightarrow> jsstring \<Rightarrow> jsstring" where
  "limitLength L cfg pinyin originalText =
     (if int (length pinyin) \<le> maxChineseLength cfg then pinyin
      else (let truncated = substring0 pinyin (maxChineseLength cfg);
                hash = generateHash L originalText (hashLength cfg)
            in truncated @ separator cfg @ hash))"

definition handleDuplicateKey ::
    "libs \<Rightarrow> KeyGenerationConfig \<Rightarrow> nat \<Rightarrow> jsstring \<Rightarrow> jsstring \<Rightarrow> jsstring" where
  \<comment> \<open>\<open>now\<close> is the value of \<open>Date.now()\<close>; \<open>text + Date.now()\<close> appends its decimal digits\<close>
  "handleDuplicateKey L cfg now baseKey text =
     (let hash = generateHash L (text @ to_radix 10 now) (hashLength cfg)
      in baseKey @ separator cfg @ hash)"

definition generateKey ::
    "libs \<Rightarrow> KeyGenerationConfig \<Rightarrow> KeyGenerator \<Rightarrow> nat \<Rightarrow> jsstring \<Rightarrow> jsstring \<times> KeyGenerator" where
  "generateKey L cfg g now text =
     (if reuseExistingKey cfg \<and> textToKeyMap g text \<noteq> None
      then (the (textToKeyMap g text), g)
      else
         (let pinyinResult = convertToPinyin L cfg text;
              baseKey0 = limitLength L cfg pinyinResult text;
              baseKey = (if keyPrefix cfg \<noteq> [] then keyPrefix cfg @ separator cfg @ baseKey0
                         else baseKey0);
              finalKey = (if \<not> reuseExistingKey cfg \<and> baseKey \<in> existingKeys g
                          then handleDuplicateKey L cfg now baseKey text else baseKey)
          in (finalKey,
              g\<lparr>existingKeys := insert finalKey (existingKeys g),
                textToKeyMap := (textToKeyMap g)(text \<mapsto> finalKey)\<rparr>)))"

text \<open>
  What a call writes to the console. \<open>convertToPinyin\<close> warns when \<open>pinyin\<close> threw:
  the message is \<open>msg_pinyin_failed\<close> followed by the text (the error, printed after it,
  is not kept). \<open>generateKey\<close> calls \<open>convertToPinyin\<close> unless it returns the memoised
  key, and nothing else in it writes to the console.
\<close>

definition msg_pinyin_failed :: jsstring where
  "msg_pinyin_failed = [0x62fc, 0x97f3, 0x8f6c, 0x6362, 0x5931, 0x8d25, 0x3a, 0x20]"

definition convertToPinyin_console ::
    "libs \<Rightarrow> KeyGenerationConfig \<Rightarrow> jsstring \<Rightarrow> console_line list" where
  "convertToPinyin_console L cfg text =
     (if type (pinyinOptions cfg) = TypeArray then
        (case pinyin_array L (toneType (pinyinOptions cfg)) text of
           Some result \<Rightarrow> []
         | None \<Rightarrow> [ConsoleWarn (msg_pinyin_failed @ text)])
      else
        (case pinyin_string L (toneType (pinyinOptions cfg)) text of
           Some result \<Rightarrow> []
         | None \<Rightarrow> [ConsoleWarn (msg_pinyin_failed @ text)]))"

definition generateKey_console ::
    "libs \<Rightarrow> KeyGenerationConfig \<Rightarrow> KeyGenerator \<Rightarrow> jsstring \<Rightarrow> console_line list" where
  "generateKey_console L cfg g text =
     (if reuseExistingKey cfg \<and> textToKeyMap g text \<noteq> None then []
      else convertToPinyin_console L cfg text)"

definition loadExistingKeys :: "KeyGenerator \<Rightarrow> jsstring list \<Rightarrow> KeyGenerator" where
  "loadExistingKeys g keys = g\<lparr>existingKeys := existingKeys g \<union> set keys\<rparr>"

definition validateKey :: "KeyGenerationConfig \<Rightarrow> jsstring \<Rightarrow> bool" where
  "validateKey cfg key =
     (if key = [] then False
      else if keyPrefix cfg \<noteq> [] \<and> \<not> (take (length (keyPrefix cfg)) key = keyPrefix cfg) then False
      else list_all is_key_char key)"

text \<open>
  The key before the duplicate check: the transliteration, limited in length, with the
  prefix. It names a subterm of \<open>generateKey\<close>.
\<close>

definition baseKey_of :: "libs \<Rightarrow> KeyGenerationConfig \<Rightarrow> jsstring \<Rightarrow> jsstring" where
  "baseKey_of L cfg text =
     (let baseKey0 = limitLength L cfg (convertToPinyin L cfg text) text
      in if keyPrefix cfg \<noteq> [] then keyPrefix cfg @ separator cfg @ baseKey0 else baseKey0)"

text \<open>What \<open>pinyin\<close> returned when it did not throw, as \<open>convertToPinyin\<close> renders it.\<close>

definition pinyin_result :: "libs \<Rightarrow> KeyGenerationConfig \<Rightarrow> jsstring \<Rightarrow> jsstring option" where
  "pinyin_result L cfg text =
     (if type (pinyinOptions cfg) = TypeArray
      then map_option (join (separator cfg)) (pinyin_array L (toneType (pinyinOptions cfg)) text)
      else pinyin_string L (toneType (pinyinOptions cfg)) text)"

text \<open>The shape of an MD5 digest in hexadecimal: 32 characters of \<open>[0-9a-f]\<close>.\<close>

definition is_hex_char :: "jschar \<Rightarrow> bool" where
  "is_hex_char c = (is_digit c \<or> (97 \<le> unat c \<and> unat c \<le> 102))"

definition md5_shape :: "libs \<Rightarrow> bool" where
  "md5_shape L = (\<forall>s. length (md5_hex L s) = 32 \<and> list_all is_hex_char (md5_hex L s))"

text \<open>The calls a client makes on one generator during a run.\<close>

datatype kg_call = Generate nat jsstring | Load "jsstring list"

fun kg_step :: "libs \<Rightarrow> KeyGenerationConfig \<Rightarrow> KeyGenerator \<Rightarrow> kg_call \<Rightarrow> KeyGenerator" where
  "kg_step L cfg g (Generate now text) = snd (generateKey L cfg g now text)"
| "kg_step L cfg g (Load keys) = loadExistingKeys g keys"

definition new_KeyGenerator :: KeyGenerator where
  \<comment> \<open>the fields' initialisers: \<open>new Set()\<close> and \<open>new Map()\<close>\<close>
  "new_KeyGenerator = \<lparr>existingKeys = {}, textToKeyMap = Map.empty\<rparr>"

section \<open>CacheManager (the response cache)\<close>

text \<open>
  A value thrown in JavaScript: an \<open>Error\<close> object (of any subclass) with its message, or
  a value that is not an \<open>Error\<close>, kept as its \<open>String(...)\<close> rendering.
\<close>

datatype thrown = Error jsstring | NonError jsstring

definition TypeError_undefined :: thrown where
  \<comment> \<open>the message is abridged\<close>
  "TypeError_undefined = Error (js ''Cannot read properties of undefined'')"

text \<open>
  The cache is a \<open>Map\<close>: keys are distinct and keep their insertion order, \<open>set\<close> on a
  present key replaces the value in place (\<open>AList.update\<close>). Times are milliseconds since
  the epoch, the values of \<open>Date.now()\<close>, passed in as \<open>now\<close>. The digest stored in an
  entry is computed by a library from \<open>JSON.stringify(data)\<close> and is the parameter \<open>H\<close>.
  Writing the snapshot to disk is asynchronous: \<open>saveToDisk\<close> yields at its first
  \<open>await\<close>, so within \<open>set\<close> it changes nothing in memory; when it resumes it runs
  \<open>cleanExpired\<close>. The file itself is not modelled.
\<close>

record 'd CacheEntry =
  data :: 'd
  timestamp :: int
  expiresAt :: int
  hash :: jsstring

record CacheConfig =
  enabled :: bool
  cacheDir :: jsstring
  defaultTTL :: int
  maxEntries :: int
  persistent :: bool

record CacheConfigPatch =
  enabled_new :: "bool option"
  cacheDir_new :: "jsstring option"
  defaultTTL_new :: "int option"
  maxEntries_new :: "int option"
  persistent_new :: "bool option"

record 'd CacheManager =
  config :: CacheConfig
  memoryCache :: "(jsstring \<times> 'd CacheEntry) list"

definition new_CacheManager :: "CacheConfig \<Rightarrow> 'd CacheManager" where
  "new_CacheManager cfg = \<lparr>config = cfg, memoryCache = []\<rparr>"

definition isExpired :: "int \<Rightarrow> 'd CacheEntry \<Rightarrow> bool" where
  "isExpired now entry = (now > expiresAt entry)"

definition cleanExpired :: "int \<Rightarrow> 'd CacheManager \<Rightarrow> 'd CacheManager" where
  "cleanExpired now c = c\<lparr>memoryCache := filter (\<lambda>(key, entry). \<not> now > expiresAt entry) (memoryCache c)\<rparr>"

text \<open>
  The deletion loop of \<open>enforceSizeLimit\<close>. With a negative \<open>maxEntries\<close> the loop runs
  past the end of \<open>entries\<close>, and \<open>entries[i][0]\<close> throws.
\<close>

function enforce_delete ::
    "(jsstring \<times> 'd CacheEntry) list \<Rightarrow> int \<Rightarrow> nat \<Rightarrow> (jsstring \<times> 'd CacheEntry) list
     \<Rightarrow> thrown + (jsstring \<times> 'd CacheEntry) list" where
  "enforce_delete entries toDelete i m =
     (if int i < toDelete then
        (if i < length entries
         then enforce_delete entries toDelete (Suc i) (AList.delete (fst (entries ! i)) m)
         else Inl TypeError_undefined)
      else Inr m)"
  by pat_completeness auto
termination
  by (relation "measure (\<lambda>(entries, toDelete, i, m). nat (toDelete - int i))") auto

declare enforce_delete.simps [simp del]

definition enforceSizeLimit :: "'d CacheManager \<Rightarrow> thrown + 'd CacheManager" where
  "enforceSizeLimit c =
     (let entries = memoryCache c in
      if int (length entries) \<le> maxEntries (config c) then Inr c
      else (let sorted_entries = sort_key (\<lambda>(key, entry). timestamp entry) entries;
                toDelete = int (length entries) - maxEntries (config c)
            in case enforce_delete sorted_entries toDelete 0 (memoryCache c) of
                 Inl e \<Rightarrow> Inl e
               | Inr m \<Rightarrow> Inr (c\<lparr>memoryCache := m\<rparr>)))"

definition cache_set ::
    "('d \<Rightarrow> jsstring) \<Rightarrow> int \<Rightarrow> jsstring \<Rightarrow> 'd \<Rightarrow> int option \<Rightarrow> 'd CacheManager
     \<Rightarrow> thrown + 'd CacheManager" where
  "cache_set H now key d ttl c =
     (if \<not> enabled (config c) then Inr c
      else (let expires = now + (case ttl of Some t \<Rightarrow> if t \<noteq> 0 then t else defaultTTL (config c)
                                         | None \<Rightarrow> defaultTTL (config c));
                entry = \<lparr>data = d, timestamp = now, expiresAt = expires, hash = H d\<rparr>
            in enforceSizeLimit (c\<lparr>memoryCache := AList.update key entry (memoryCache c)\<rparr>)))"

definition cache_get :: "int \<Rightarrow> jsstring \<Rightarrow> 'd CacheManager \<Rightarrow> 'd option \<times> 'd CacheManager" where
  "cache_get now key c =
     (if \<not> enabled (config c) then (None, c)
      else case map_of (memoryCache c) key of
             None \<Rightarrow> (None, c)
           | Some entry \<Rightarrow>
               if isExpired now entry
               then (None, c\<lparr>memoryCache := AList.delete key (memoryCache c)\<rparr>)
               else (Some (data entry), c))"

definition cache_has :: "int \<Rightarrow> jsstring \<Rightarrow> 'd CacheManager \<Rightarrow> bool \<times> 'd CacheManager" where
  "cache_has now key c =
     (if \<not> enabled (config c) then (False, c)
      else case map_of (memoryCache c) key of
             None \<Rightarrow> (False, c)
           | Some entry \<Rightarrow>
               if isExpired now entry
               then (False, c\<lparr>memoryCache := AList.delete key (memoryCache c)\<rparr>)
               else (True, c))"

text \<open>\<open>updateConfig\<close> takes a partial configuration; an absent field keeps its value.\<close>

definition updateConfig :: "CacheConfigPatch \<Rightarrow> 'd CacheManager \<Rightarrow> 'd CacheManager" where
  "updateConfig p c =
     c\<lparr>config := \<lparr>enabled = (case enabled_new p of Some v \<Rightarrow> v | None \<Rightarrow> enabled (config c)),
                   cacheDir = (case cacheDir_new p of Some v \<Rightarrow> v | None \<Rightarrow> cacheDir (config c)),
                   defaultTTL = (case defaultTTL_new p of Some v \<Rightarrow> v | None \<Rightarrow> defaultTTL (config c)),
                   maxEntries = (case maxEntries_new p of Some v \<Rightarrow> v | None \<Rightarrow> maxEntries (config c)),
                   persistent = (case persistent_new p of Some v \<Rightarrow> v | None \<Rightarrow> persistent (config c))\<rparr>\<rparr>"

text \<open>The entry \<open>set\<close> builds; it names a subterm of \<open>cache_set\<close>.\<close>

definition new_entry :: "('d \<Rightarrow> jsstring) \<Rightarrow> int \<Rightarrow> 'd \<Rightarrow> int option \<Rightarrow> CacheConfig \<Rightarrow> 'd CacheEntry" where
  "new_entry H now d ttl cfg =
     \<lparr>data = d, timestamp = now,
      expiresAt = now + (case ttl of Some t \<Rightarrow> if t \<noteq> 0 then t else defaultTTL cfg
                                   | None \<Rightarrow> defaultTTL cfg),
      hash = H d\<rparr>"


section \<open>LLMClient: retries and batch translation (src/llm/client.ts)\<close>

text \<open>
  The provider is outside the program. Its behaviour is a script: the outcome of its
  \<open>n\<close>-th invocation (counted from 0) on a prompt, a response or a thrown value. The
  world records how many invocations were made and, in order, every invocation and every
  sleep with its delay in milliseconds.
\<close>

datatype io_event = Invoke | Sleep int

record llm_world =
  invocations :: nat
  trace :: "io_event list"

type_synonym provider = "nat \<Rightarrow> jsstring \<Rightarrow> thrown + jsstring"

fun toError :: "thrown \<Rightarrow> thrown" where
  \<comment> \<open>\<open>error instanceof Error ? error : new Error(String(error))\<close>\<close>
  "toError (Error m) = Error m"
| "toError (NonError s) = Error s"

text \<open>The message of \<open>new Error(...)\<close> thrown when the loop never ran, as code units.\<close>

definition msg_call_failed :: jsstring where
  "msg_call_failed = [0x8c03, 0x7528, 0x5931, 0x8d25]"

definition invoked :: "llm_world \<Rightarrow> llm_world" where
  "invoked w = w\<lparr>invocations := Suc (invocations w), trace := trace w @ [Invoke]\<rparr>"

definition sleep :: "int \<Rightarrow> llm_world \<Rightarrow> llm_world" where
  "sleep ms w = w\<lparr>trace := trace w @ [Sleep ms]\<rparr>"

function invokeWithRetry_loop ::
    "provider \<Rightarrow> jsstring \<Rightarrow> int \<Rightarrow> nat \<Rightarrow> thrown option \<Rightarrow> llm_world
     \<Rightarrow> (thrown + jsstring) \<times> llm_world" where
  "invokeWithRetry_loop llm prompt maxRetries attempt lastError w =
     (if int attempt \<le> maxRetries then
        (case llm (invocations w) prompt of
           Inr content \<Rightarrow> (Inr content, invoked w)
         | Inl error \<Rightarrow>
             invokeWithRetry_loop llm prompt maxRetries (Suc attempt) (Some (toError error))
               (if int attempt < maxRetries
                then sleep (2 ^ attempt * 1000) (invoked w) else invoked w))
      else (Inl (case lastError of Some e \<Rightarrow> e | None \<Rightarrow> Error msg_call_failed), w))"
  by pat_completeness auto
termination
  by (relation "measure (\<lambda>(llm, prompt, maxRetries, attempt, lastError, w).
        nat (maxRetries + 1 - int attempt))") auto

declare invokeWithRetry_loop.simps [simp del]

definition invokeWithRetry ::
    "provider \<Rightarrow> jsstring \<Rightarrow> int \<Rightarrow> llm_world \<Rightarrow> (thrown + jsstring) \<times> llm_world" where
  "invokeWithRetry llm prompt maxRetries w = invokeWithRetry_loop llm prompt maxRetries 0 None w"

text \<open>\<open>ErrorUtils.withRetry\<close> (src/utils/key-generator.ts), on the same world.\<close>

record RetryOptions =
  opt_maxRetries :: int
  opt_baseDelay :: int
  opt_shouldRetry :: "thrown \<Rightarrow> bool"

function withRetry_loop ::
    "(nat \<Rightarrow> thrown + 'a) \<Rightarrow> RetryOptions \<Rightarrow> nat \<Rightarrow> thrown option \<Rightarrow> llm_world
     \<Rightarrow> (thrown + 'a) \<times> llm_world" where
  "withRetry_loop operation options attempt lastError w =
     (if int attempt \<le> opt_maxRetries options then
        (case operation (invocations w) of
           Inr v \<Rightarrow> (Inr v, invoked w)
         | Inl error \<Rightarrow>
             if int attempt = opt_maxRetries options \<or> \<not> opt_shouldRetry options error
             then (Inl error, invoked w)
             else withRetry_loop operation options (Suc attempt) (Some error)
                    (sleep (opt_baseDelay options * 2 ^ attempt) (invoked w)))
      else (Inl (case lastError of Some e \<Rightarrow> e | None \<Rightarrow> NonError (js ''undefined'')), w))"
  by pat_completeness auto
termination
  by (relation "measure (\<lambda>(operation, options, attempt, lastError, w).
        nat (opt_maxRetries options + 1 - int attempt))") auto

declare withRetry_loop.simps [simp del]

definition withRetry ::
    "(nat \<Rightarrow> thrown + 'a) \<Rightarrow> RetryOptions \<Rightarrow> llm_world \<Rightarrow> (thrown + 'a) \<times> llm_world" where
  "withRetry operation options w = withRetry_loop operation options 0 None w"

text \<open>The trace of attempts \<open>a\<close> to \<open>n\<close> that all fail: a sleep after each but the last.\<close>

definition backoff_trace :: "int \<Rightarrow> nat \<Rightarrow> nat \<Rightarrow> io_event list" where
  "backoff_trace base a n = concat (map (\<lambda>k. [Invoke, Sleep (base * 2 ^ k)]) [a..<n]) @ [Invoke]"


text \<open>
  A \<open>Record<string, string>\<close> that is enumerated: its own properties in the order of
  \<open>Object.keys\<close>, with distinct keys. The loop slices the keys and looks each up again in
  \<open>texts\<close>; here it slices the entries, which is the same list of pairs. The object that
  is built and returned starts as \<open>{}\<close> and is filled by assignments: by \<open>Object.assign\<close>
  with the translations of a batch, or key by key with the batch's own texts when the
  call for the batch threw. A batch size of 0 makes the loop run forever: the result is
  then \<open>None\<close>.
\<close>

type_synonym jsrecord = "(jsstring \<times> jsstring) list"

definition Object_assign :: "(jsstring \<rightharpoonup> jsstring) \<Rightarrow> jsrecord \<Rightarrow> (jsstring \<rightharpoonup> jsstring)" where
  "Object_assign target source = foldl (\<lambda>m (k, v). set_property m k v) target source"

partial_function (option) batchTranslate_loop ::
    "(jsrecord \<Rightarrow> 'w \<Rightarrow> (thrown + jsrecord) \<times> 'w) \<Rightarrow> nat \<Rightarrow> jsrecord \<Rightarrow> nat
     \<Rightarrow> (jsstring \<rightharpoonup> jsstring) \<Rightarrow> 'w \<Rightarrow> ((jsstring \<rightharpoonup> jsstring) \<times> 'w) option" where
  "batchTranslate_loop translateBatch batchSize texts i translations w =
     (if i < length texts then
        (let batchTexts = take batchSize (drop i texts) in
         case translateBatch batchTexts w of
           (Inr batchTranslations, w') \<Rightarrow>
             batchTranslate_loop translateBatch batchSize texts (i + batchSize)
               (Object_assign translations batchTranslations) w'
         | (Inl error, w') \<Rightarrow>
             batchTranslate_loop translateBatch batchSize texts (i + batchSize)
               (Object_assign translations batchTexts) w')
      else Some (translations, w))"

text \<open>
  The batches the loop forms, the outcome of \<open>translateBatch\<close> on each in turn (the world
  threaded through), and what the loop assigns for a batch: the translations, or the
  batch's own texts when the call failed.
\<close>

function chunks :: "nat \<Rightarrow> 'a list \<Rightarrow> 'a list list" where
  "chunks n xs = (if n = 0 \<or> xs = [] then [] else take n xs # chunks n (drop n xs))"
  by pat_completeness auto
termination
  by (relation "measure (\<lambda>(n, xs). length xs)") auto

declare chunks.simps [simp del]

fun outcomes :: "(jsrecord \<Rightarrow> 'w \<Rightarrow> (thrown + jsrecord) \<times> 'w) \<Rightarrow> 'w \<Rightarrow> jsrecord list
                 \<Rightarrow> (thrown + jsrecord) list" where
  "outcomes tb w [] = []"
| "outcomes tb w (b # bs) = fst (tb b w) # outcomes tb (snd (tb b w)) bs"

fun written :: "(thrown + jsrecord) \<Rightarrow> jsrecord \<Rightarrow> jsrecord" where
  "written (Inr t) b = t"
| "written (Inl e) b = b"


text \<open>
  \<open>translateBatch\<close> is written to compile the prompt with a \<open>new TemplateManager()\<close>,
  call the provider with retries and parse the response. The template compiler and the
  extraction of the JSON payload are parameters.
\<close>

record TranslateDeps =
  compileTranslationTemplate :: "jsrecord \<Rightarrow> thrown + jsstring"
  translationLLM :: provider
  extractTranslations :: "jsstring \<Rightarrow> thrown + jsrecord"

text \<open>\<open>error instanceof Error ? error.message : String(error)\<close>\<close>

fun error_message :: "thrown \<Rightarrow> jsstring" where
  "error_message (Error m) = m"
| "error_message (NonError s) = s"

definition msg_parse_failed :: jsstring where
  "msg_parse_failed = [0x89e3, 0x6790, 0x7ffb, 0x8bd1, 0x54cd, 0x5e94, 0x5931, 0x8d25, 0x3a, 0x20]"

definition msg_translate_failed :: jsstring where
  "msg_translate_failed = [0x6587, 0x672c, 0x7ffb, 0x8bd1, 0x5931, 0x8d25, 0x3a, 0x20]"

definition parseTranslationResponse :: "TranslateDeps \<Rightarrow> jsstring \<Rightarrow> thrown + jsrecord" where
  "parseTranslationResponse D response =
     (case extractTranslations D response of
        Inr translations \<Rightarrow> Inr translations
      | Inl error \<Rightarrow> Inl (Error (msg_parse_failed @ error_message error)))"

definition translateTexts ::
    "TranslateDeps \<Rightarrow> int \<Rightarrow> jsstring \<Rightarrow> llm_world \<Rightarrow> (thrown + jsrecord) \<times> llm_world" where
  "translateTexts D retryCount prompt w =
     (case invokeWithRetry (translationLLM D) prompt retryCount w of
        (Inr response, w') \<Rightarrow>
          (case parseTranslationResponse D response of
             Inr translations \<Rightarrow> (Inr translations, w')
           | Inl error \<Rightarrow> (Inl (Error (msg_translate_failed @ error_message error)), w'))
      | (Inl error, w') \<Rightarrow> (Inl (Error (msg_translate_failed @ error_message error)), w'))"

text \<open>
  The names that the module \<open>client.ts\<close> binds at run time: its imports (the
  \<open>import type\<close> is erased) and its class. An identifier that the module does not bind
  and that is not a global of the runtime throws a \<open>ReferenceError\<close> when it is
  evaluated. \<open>TemplateManager\<close> is such an identifier: the module uses it and never
  imports it.
\<close>

definition client_module_scope :: "string list" where
  "client_module_scope =
     [''BaseLanguageModel'', ''HumanMessage'', ''LLMProviderFactory'', ''LLMClient'']"

definition resolve_identifier :: "string list \<Rightarrow> string \<Rightarrow> thrown + unit" where
  "resolve_identifier scope name =
     (if name \<in> set scope then Inr () else Inl (Error (js name @ js '' is not defined'')))"

definition translateBatch ::
    "TranslateDeps \<Rightarrow> int \<Rightarrow> jsrecord \<Rightarrow> llm_world \<Rightarrow> (thrown + jsrecord) \<times> llm_world" where
  "translateBatch D retryCount texts w =
     (case resolve_identifier client_module_scope ''TemplateManager'' of
        Inl error \<Rightarrow> (Inl error, w)
      | Inr bound \<Rightarrow>
          (case compileTranslationTemplate D texts of
             Inl error \<Rightarrow> (Inl error, w)
           | Inr prompt \<Rightarrow> translateTexts D retryCount prompt w))"

definition batchTranslateTexts ::
    "TranslateDeps \<Rightarrow> int \<Rightarrow> nat \<Rightarrow> jsrecord \<Rightarrow> llm_world
     \<Rightarrow> ((jsstring \<rightharpoonup> jsstring) \<times> llm_world) option" where
  "batchTranslateTexts D retryCount batchSize texts w =
     batchTranslate_loop (translateBatch D retryCount) batchSize texts 0 Map.empty w"


section \<open>FileProcessor: merging extracted texts\<close>

text \<open>
  The orchestrator's aggregate store is a plain object used as a map from final key to
  text. Two variants of \<open>processFile\<close> exist. One takes the key mapping from the code
  transformer, reads each temporary key in it and, when what it read is truthy, assigns
  the text under it (\<open>collectExtractedTexts\<close>). The other generates the key, which may
  write a warning of the key generator to the console, and assigns it in the key mapping
  and the text in the store in the same iteration (\<open>resolveKeys\<close>); each iteration has
  its own reading of the clock.
\<close>

record FileProcessor =
  allExtractedTexts :: "jsstring \<rightharpoonup> jsstring"
  keyGenerator :: KeyGenerator
  console :: "console_line list"

definition collect_step ::
    "prototype \<Rightarrow> (jsstring \<rightharpoonup> jsstring) \<Rightarrow> FileProcessor \<Rightarrow> jsstring \<times> jsstring
     \<Rightarrow> FileProcessor" where
  "collect_step Object_prototype keyMapping fp entry =
     (case entry of (tempKey, text) \<Rightarrow>
        (let realKey = get_property Object_prototype keyMapping tempKey
         in if truthy realKey
            then fp\<lparr>allExtractedTexts :=
                      set_property (allExtractedTexts fp) (property_key realKey) text\<rparr>
            else fp))"

definition collectExtractedTexts ::
    "prototype \<Rightarrow> jsrecord \<Rightarrow> (jsstring \<rightharpoonup> jsstring) \<Rightarrow> FileProcessor \<Rightarrow> FileProcessor" where
  "collectExtractedTexts Object_prototype extractedTexts keyMapping fp =
     foldl (collect_step Object_prototype keyMapping) fp extractedTexts"

definition resolve_step ::
    "libs \<Rightarrow> KeyGenerationConfig \<Rightarrow> (jsstring \<rightharpoonup> jsstring) \<times> FileProcessor
     \<Rightarrow> nat \<times> jsstring \<times> jsstring \<Rightarrow> (jsstring \<rightharpoonup> jsstring) \<times> FileProcessor" where
  "resolve_step L cfg state entry =
     (case (state, entry) of ((keyMapping, fp), (now, tempKey, text)) \<Rightarrow>
        (let (realKey, g) = generateKey L cfg (keyGenerator fp) now text;
             warned = generateKey_console L cfg (keyGenerator fp) text
         in (set_property keyMapping tempKey realKey,
             fp\<lparr>keyGenerator := g,
                console := console fp @ warned,
                allExtractedTexts := set_property (allExtractedTexts fp) realKey text\<rparr>)))"

definition resolveKeys ::
    "libs \<Rightarrow> KeyGenerationConfig \<Rightarrow> nat list \<Rightarrow> jsrecord \<Rightarrow> FileProcessor
     \<Rightarrow> (jsstring \<rightharpoonup> jsstring) \<times> FileProcessor" where
  "resolveKeys L cfg clock extractedTexts fp =
     foldl (resolve_step L cfg) (Map.empty, fp) (zip clock extractedTexts)"

definition new_FileProcessor :: FileProcessor where
  "new_FileProcessor = \<lparr>allExtractedTexts = Map.empty, keyGenerator = new_KeyGenerator, console = []\<rparr>"


section \<open>Objects and references\<close>

text \<open>
  The collections of the key generator and of the orchestrator are objects: a caller that
  holds a reference can change them. To say what the accessors hand out, the objects live
  in a heap, a list of objects addressed by position; \<open>new Map(...)\<close>, \<open>new Set(...)\<close> and
  \<open>{...}\<close> allocate at the end. The values stored are strings, which cannot be changed,
  so a copy of a collection shares nothing with the original. The methods below are the
  ones above, reading their collections from the heap and writing them back.
\<close>

datatype jsobject = SetObj "jsstring set" | MapObj "jsstring \<rightharpoonup> jsstring"
  | RecordObj "jsstring \<rightharpoonup> jsstring"

type_synonym heap = "jsobject list"

definition alloc :: "jsobject \<Rightarrow> heap \<Rightarrow> nat \<times> heap" where
  "alloc obj h = (length h, h @ [obj])"

record KeyGenerator_fields =
  existingKeys_at :: nat
  textToKeyMap_at :: nat

definition read_KeyGenerator :: "heap \<Rightarrow> KeyGenerator_fields \<Rightarrow> KeyGenerator option" where
  "read_KeyGenerator h this =
     (if existingKeys_at this < length h \<and> textToKeyMap_at this < length h then
        (case (h ! existingKeys_at this, h ! textToKeyMap_at this) of
           (SetObj s, MapObj m) \<Rightarrow> Some \<lparr>existingKeys = s, textToKeyMap = m\<rparr>
         | _ \<Rightarrow> None)
      else None)"

definition write_KeyGenerator :: "heap \<Rightarrow> KeyGenerator_fields \<Rightarrow> KeyGenerator \<Rightarrow> heap" where
  "write_KeyGenerator h this g =
     (h[existingKeys_at this := SetObj (existingKeys g)])[textToKeyMap_at this := MapObj (textToKeyMap g)]"

definition generateKey_heap ::
    "libs \<Rightarrow> KeyGenerationConfig \<Rightarrow> KeyGenerator_fields \<Rightarrow> nat \<Rightarrow> jsstring \<Rightarrow> heap
     \<Rightarrow> (jsstring \<times> heap) option" where
  "generateKey_heap L cfg this now text h =
     (case read_KeyGenerator h this of
        None \<Rightarrow> None
      | Some g \<Rightarrow> Some (fst (generateKey L cfg g now text),
                        write_KeyGenerator h this (snd (generateKey L cfg g now text))))"

definition getTextToKeyMap :: "KeyGenerator_fields \<Rightarrow> heap \<Rightarrow> (nat \<times> heap) option" where
  "getTextToKeyMap this h =
     (case read_KeyGenerator h this of
        None \<Rightarrow> None
      | Some g \<Rightarrow> Some (alloc (MapObj (textToKeyMap g)) h))"

definition getAllKeys :: "KeyGenerator_fields \<Rightarrow> heap \<Rightarrow> (nat \<times> heap) option" where
  "getAllKeys this h =
     (case read_KeyGenerator h this of
        None \<Rightarrow> None
      | Some g \<Rightarrow> Some (alloc (SetObj (existingKeys g)) h))"

definition read_record :: "heap \<Rightarrow> nat \<Rightarrow> (jsstring \<rightharpoonup> jsstring) option" where
  "read_record h a =
     (if a < length h then (case h ! a of RecordObj r \<Rightarrow> Some r | _ \<Rightarrow> None) else None)"

definition getExtractedTexts :: "nat \<Rightarrow> heap \<Rightarrow> (nat \<times> heap) option" where
  "getExtractedTexts allExtractedTexts_at h =
     (case read_record h allExtractedTexts_at of
        None \<Rightarrow> None
      | Some r \<Rightarrow> Some (alloc (RecordObj r) h))"

definition storeText_heap :: "nat \<Rightarrow> jsstring \<Rightarrow> jsstring \<Rightarrow> heap \<Rightarrow> heap option" where
  "storeText_heap allExtractedTexts_at realKey text h =
     (case read_record h allExtractedTexts_at of
        None \<Rightarrow> None
      | Some r \<Rightarrow> Some (h[allExtractedTexts_at := RecordObj (set_property r realKey text)]))"

text \<open>Two heaps that differ at most at the address \<open>a\<close>.\<close>

definition same_but :: "nat \<Rightarrow> heap \<Rightarrow> heap \<Rightarrow> bool" where
  "same_but a h h' = (length h = length h' \<and> (\<forall>b < length h. b \<noteq> a \<longrightarrow> h ! b = h' ! b))"

text \<open>
  What a caller does after it received the copy at address \<open>a\<close>: it calls \<open>generateKey\<close>,
  lets the orchestrator store a text, or changes the copy in any way (\<open>WriteCopy\<close> puts
  an arbitrary object in its place). The run returns the keys generated, in order.
\<close>

datatype client_op = CallGenerateKey nat jsstring | CallStoreText jsstring jsstring
  | WriteCopy jsobject

fun is_call :: "client_op \<Rightarrow> bool" where
  "is_call (WriteCopy obj) = False"
| "is_call c = True"

fun client_run ::
    "libs \<Rightarrow> KeyGenerationConfig \<Rightarrow> KeyGenerator_fields \<Rightarrow> nat \<Rightarrow> nat \<Rightarrow> client_op list \<Rightarrow> heap
     \<Rightarrow> (jsstring list \<times> heap) option" where
  "client_run L cfg this b a [] h = Some ([], h)"
| "client_run L cfg this b a (CallGenerateKey now text # ops) h =
     (case generateKey_heap L cfg this now text h of
        None \<Rightarrow> None
      | Some (k, h') \<Rightarrow>
          (case client_run L cfg this b a ops h' of
             None \<Rightarrow> None
           | Some (ks, h'') \<Rightarrow> Some (k # ks, h'')))"
| "client_run L cfg this b a (CallStoreText realKey text # ops) h =
     (case storeText_heap b realKey text h of
        None \<Rightarrow> None
      | Some h' \<Rightarrow> client_run L cfg this b a ops h')"
| "client_run L cfg this b a (WriteCopy obj # ops) h = client_run L cfg this b a ops (h[a := obj])"

text \<open>The generator's set and map and the orchestrator's store are in the heap.\<close>

definition allocated :: "heap \<Rightarrow> KeyGenerator_fields \<Rightarrow> nat \<Rightarrow> bool" where
  "allocated h this b = (read_KeyGenerator h this \<noteq> None \<and> read_record h b \<noteq> None)"


section \<open>Concrete inputs\<close>

text \<open>
  The texts used below, as code units, and the values the two libraries give on them: the
  transliterations pinyin-pro returns with \<open>nonZh: 'consecutive'\<close> (a run of non-Chinese
  characters is kept as one token) and the MD5 digests. On any other input the table
  returns the text itself and the digest of the empty string.
\<close>

definition text_tijiao :: jsstring where
  "text_tijiao = [0x63d0, 0x4ea4]"

definition text_baocun :: jsstring where
  "text_baocun = [0x4fdd, 0x5b58]"

definition text_long :: jsstring where
  "text_long = [0x8fd9, 0x662f, 0x4e00, 0x4e2a, 0x5f88, 0x957f, 0x7684, 0x6587, 0x672c]"

definition text_bang :: jsstring where
  "text_bang = [0x63d0, 0x4ea4, 0x21]"

definition demo_pinyin :: "jsstring \<Rightarrow> jsstring list" where
  "demo_pinyin s =
     (if s = text_tijiao then [js ''ti'', js ''jiao'']
      else if s = text_baocun then [js ''bao'', js ''cun'']
      else if s = text_long then [js ''zhe'', js ''shi'', js ''yi'', js ''ge'', js ''hen'',
                                   js ''chang'', js ''de'', js ''wen'', js ''ben'']
      else if s = text_bang then [js ''ti'', js ''jiao'', js ''!'']
      else [s])"

definition demo_md5 :: "jsstring \<Rightarrow> jsstring" where
  "demo_md5 s =
     (if s = text_tijiao then js ''939d5345ad4345dbaabe14798f6ac0f1''
      else if s = text_tijiao @ js ''1700000000000'' then js ''15ee6fa0b5cebd474246424ded04418f''
      else if s = text_long then js ''525e446128d2c3046fa1322bf410d5e8''
      else js ''d41d8cd98f00b204e9800998ecf8427e'')"

definition demo_libs :: libs where
  "demo_libs = \<lparr>pinyin_array = (\<lambda>tone s. Some (demo_pinyin s)),
                 pinyin_string = (\<lambda>tone s. Some (join (js '' '') (demo_pinyin s))),
                 md5_hex = demo_md5\<rparr>"

definition demo_cfg :: KeyGenerationConfig where
  "demo_cfg = \<lparr>maxChineseLength = 10, hashLength = 6, reuseExistingKey = True,
                duplicateKeySuffix = Hash, keyPrefix = [], separator = js ''_'',
                pinyinOptions = \<lparr>toneType = ToneNone, type = TypeArray\<rparr>\<rparr>"

definition demo_cache_cfg :: CacheConfig where
  "demo_cache_cfg = \<lparr>enabled = True, cacheDir = js ''.ai-i18n-cache'', defaultTTL = 86400000,
                      maxEntries = 2, persistent = False\<rparr>"

definition demo_entry :: "int \<Rightarrow> jsstring \<Rightarrow> jsstring CacheEntry" where
  \<comment> \<open>the entry \<open>set\<close> stores at time \<open>t\<close> with the default time to live\<close>
  "demo_entry t d = \<lparr>data = d, timestamp = t, expiresAt = t + 86400000, hash = demo_md5 d\<rparr>"

definition disable_patch :: CacheConfigPatch where
  \<comment> \<open>\<open>updateConfig({enabled: false, maxEntries: 2})\<close>\<close>
  "disable_patch = \<lparr>enabled_new = Some False, cacheDir_new = None, defaultTTL_new = None,
                     maxEntries_new = Some 2, persistent_new = None\<rparr>"

definition three_entries :: "jsstring CacheManager" where
  "three_entries = \<lparr>config = demo_cache_cfg\<lparr>maxEntries := 1000\<rparr>,
                     memoryCache = [(js ''a'', demo_entry 1 (js ''x'')),
                                    (js ''b'', demo_entry 2 (js ''y'')),
                                    (js ''c'', demo_entry 3 (js ''z''))]\<rparr>"

definition always_failing :: provider where
  "always_failing = (\<lambda>n prompt. Inl (Error (js ''timeout #'' @ to_radix 10 n)))"

definition new_world :: llm_world where
  "new_world = \<lparr>invocations = 0, trace = []\<rparr>"

definition failing_deps :: TranslateDeps where
  "failing_deps = \<lparr>compileTranslationTemplate = (\<lambda>texts. Inr (concat (map fst texts))),
                    translationLLM = always_failing,
                    extractTranslations = (\<lambda>response. Inl (Error (js ''Unexpected token'')))\<rparr>"

definition two_texts :: jsrecord where
  "two_texts = [(js ''k1'', js ''A''), (js ''k2'', js ''B'')]"

definition proto_texts :: jsrecord where
  \<comment> \<open>the object that \<open>JSON.parse\<close> gives for a text whose one key is \<open>__proto__\<close>\<close>
  "proto_texts = [(js ''__proto__'', js ''A'')]"

definition demo_prototype :: prototype where
  \<comment> \<open>three of the names \<open>Object.prototype\<close> holds, with the values as Node prints them\<close>
  "demo_prototype =
     [js ''__proto__'' \<mapsto> js ''[object Object]'',
      js ''constructor'' \<mapsto> js ''function Object() { [native code] }'',
      js ''toString'' \<mapsto> js ''function toString() { [native code] }'']"

definition throwing_libs :: libs where
  \<comment> \<open>a \<open>pinyin\<close> that throws on every text\<close>
  "throwing_libs = \<lparr>pinyin_array = (\<lambda>tone s. None), pinyin_string = (\<lambda>tone s. None),
                     md5_hex = demo_md5\<rparr>"

definition demo_heap :: heap where
  "demo_heap = [SetObj {js ''ti_jiao''}, MapObj [text_tijiao \<mapsto> js ''ti_jiao''],
                RecordObj [js ''ti_jiao'' \<mapsto> text_tijiao]]"

definition demo_fields :: KeyGenerator_fields where
  "demo_fields = \<lparr>existingKeys_at = 0, textToKeyMap_at = 1\<rparr>"

definition demo_ops :: "client_op list" where
  \<comment> \<open>the caller clears the map it received, then a key is generated and a text stored\<close>
  "demo_ops = [WriteCopy (MapObj Map.empty), CallGenerateKey 1700000000000 text_tijiao,
               CallStoreText (js ''ti_jiao'') text_tijiao]"

definition spaced_prefix_cfg :: KeyGenerationConfig where
  \<comment> \<open>a configuration the constructor accepts: the prefix holds a space\<close>
  "spaced_prefix_cfg = demo_cfg\<lparr>reuseExistingKey := False, keyPrefix := js ''my key''\<rparr>"

section \<open>Properties of the key generator\<close>

subsection \<open>Character classes\<close>

lemma unat_of_nat_jschar: "n < 65536 \<Longrightarrow> unat (of_nat n :: jschar) = n"
  by (simp add: unat_of_nat)

lemma is_hex_key_char: "is_hex_char c \<Longrightarrow> is_key_char c"
  by (auto simp: is_hex_char_def is_key_char_def is_lower_def)

lemma digit_char_class: "d < 36 \<Longrightarrow> is_digit (digit_char d) \<or> is_lower (digit_char d)"
  by (auto simp: digit_char_def is_digit_def is_lower_def unat_of_nat_jschar simp del: of_nat_add)

lemma digit_char_key: "d < 36 \<Longrightarrow> is_key_char (digit_char d)"
  using digit_char_class[of d] by (auto simp: is_key_char_def)

lemma to_radix_key_chars: "2 \<le> b \<Longrightarrow> b \<le> 36 \<Longrightarrow> list_all is_key_char (to_radix b n)"
proof (induction b n rule: to_radix.induct)
  case (1 b n)
  show ?case
  proof (cases "n < b")
    case True
    with 1 show ?thesis by (subst to_radix.simps) (simp add: digit_char_key)
  next
    case False
    have "n mod b < b" using 1(2) by simp
    then have "n mod b < 36" using 1(3) by linarith
    with False 1 show ?thesis by (subst to_radix.simps) (simp add: digit_char_key)
  qed
qed

lemma to_radix_nonempty: "to_radix b n \<noteq> []"
  by (subst to_radix.simps) simp

lemma toLowerCase_char_key:
  assumes "is_lower c \<or> is_upper c \<or> is_digit c"
  shows "is_key_char (toLowerCase_char c)"
proof (cases "is_upper c")
  case True
  then have "unat c + unat (32 :: jschar) < 2 ^ LENGTH(16)" by (simp add: is_upper_def)
  then have "unat (c + 32) = unat c + unat (32 :: jschar)" by (simp only: unat_add_lem)
  with True show ?thesis
    by (simp add: toLowerCase_char_def is_key_char_def is_lower_def is_upper_def)
next
  case False
  with assms show ?thesis by (auto simp: toLowerCase_char_def is_key_char_def)
qed

lemma list_all_take: "list_all P xs \<Longrightarrow> list_all P (take n xs)"
  by (auto simp: list_all_iff dest: in_set_takeD)

lemma list_all_concat_map:
  "\<forall>x \<in> set xs. list_all P (f x) \<Longrightarrow> list_all P (concat (map f xs))"
  by (induction xs) auto

subsection \<open>The transliteration and its fallback\<close>

lemma generateHash_key_chars: "md5_shape L \<Longrightarrow> list_all is_key_char (generateHash L s n)"
  unfolding generateHash_def substring0_def md5_shape_def
  by (rule list_all_take) (auto simp: list_all_iff intro: is_hex_key_char)

lemma fallback_key_chars:
  assumes "md5_shape L"
  shows "list_all is_key_char (fallbackKeyGeneration L text)"
proof -
  have "list_all is_key_char (if is_cjk c then to_radix 36 (unat c) else [toLowerCase_char c])"
    if "is_cjk c \<or> is_lower c \<or> is_upper c \<or> is_digit c" for c
    using that by (auto simp: to_radix_key_chars toLowerCase_char_key)
  then have "\<forall>c \<in> set (filter (\<lambda>c. is_cjk c \<or> is_lower c \<or> is_upper c \<or> is_digit c) text).
      list_all is_key_char (if is_cjk c then to_radix 36 (unat c) else [toLowerCase_char c])"
    by simp
  then have "list_all is_key_char (concat (map (\<lambda>c. if is_cjk c then to_radix 36 (unat c)
      else [toLowerCase_char c])
      (filter (\<lambda>c. is_cjk c \<or> is_lower c \<or> is_upper c \<or> is_digit c) text)))"
    by (rule list_all_concat_map)
  then show ?thesis
    using generateHash_key_chars[OF assms]
    by (simp add: fallbackKeyGeneration_def Let_def)
qed

lemma fallback_nonempty:
  assumes "md5_shape L"
  shows "fallbackKeyGeneration L text \<noteq> []"
proof (cases "filter (\<lambda>c. is_cjk c \<or> is_lower c \<or> is_upper c \<or> is_digit c) text")
  case Nil
  have "length (generateHash L text 8) = 8"
    using assms by (simp add: generateHash_def substring0_def md5_shape_def)
  then have "generateHash L text 8 \<noteq> []" by auto
  with Nil show ?thesis by (simp add: fallbackKeyGeneration_def)
next
  case (Cons c cs)
  then show ?thesis by (simp add: fallbackKeyGeneration_def to_radix_nonempty)
qed

lemma convertToPinyin_result:
  "convertToPinyin L cfg text =
     (case pinyin_result L cfg text of Some r \<Rightarrow> r | None \<Rightarrow> fallbackKeyGeneration L text)"
  by (simp add: convertToPinyin_def pinyin_result_def split: option.splits)

lemma convertToPinyin_valid:
  assumes "md5_shape L"
      and "\<forall>r. pinyin_result L cfg text = Some r \<longrightarrow> r \<noteq> [] \<and> list_all is_key_char r"
  shows "convertToPinyin L cfg text \<noteq> [] \<and> list_all is_key_char (convertToPinyin L cfg text)"
  using assms fallback_nonempty[OF assms(1), of "text"] fallback_key_chars[OF assms(1), of "text"]
  by (simp add: convertToPinyin_result split: option.splits)

lemma limitLength_valid:
  assumes "md5_shape L" "separator cfg \<noteq> []" "list_all is_key_char (separator cfg)"
      and "p \<noteq> []" "list_all is_key_char p"
  shows "limitLength L cfg p text \<noteq> [] \<and> list_all is_key_char (limitLength L cfg p text)"
  using assms generateHash_key_chars[OF assms(1), of "text" "hashLength cfg"]
  by (simp add: limitLength_def Let_def substring0_def list_all_take)

subsection \<open>One call of \<open>generateKey\<close>\<close>

lemma generateKey_memo:
  "textToKeyMap (snd (generateKey L cfg g now text)) text = Some (fst (generateKey L cfg g now text))"
  by (auto simp: generateKey_def Let_def)

lemma generateKey_hit:
  "reuseExistingKey cfg \<Longrightarrow> textToKeyMap g text = Some k \<Longrightarrow> generateKey L cfg g now text = (k, g)"
  by (simp add: generateKey_def)

lemma generateKey_no_reuse:
  "\<not> reuseExistingKey cfg \<Longrightarrow> generateKey L cfg g now text =
     (let b = baseKey_of L cfg text;
          k = (if b \<in> existingKeys g then handleDuplicateKey L cfg now b text else b)
      in (k, g\<lparr>existingKeys := insert k (existingKeys g),
               textToKeyMap := (textToKeyMap g)(text \<mapsto> k)\<rparr>))"
  by (simp add: generateKey_def baseKey_of_def Let_def)

lemma generateKey_no_reuse_base_used:
  "\<not> reuseExistingKey cfg \<Longrightarrow>
   baseKey_of L cfg text \<in> existingKeys (snd (generateKey L cfg g now text))"
  by (simp add: generateKey_no_reuse Let_def)

lemma generateKey_existing_mono:
  "k \<in> existingKeys g \<Longrightarrow> k \<in> existingKeys (snd (generateKey L cfg g now text))"
  by (auto simp: generateKey_def Let_def)

lemma generateKey_no_reuse_dup:
  "\<not> reuseExistingKey cfg \<Longrightarrow> baseKey_of L cfg text \<in> existingKeys g \<Longrightarrow>
   fst (generateKey L cfg g now text) = handleDuplicateKey L cfg now (baseKey_of L cfg text) text"
  by (simp add: generateKey_no_reuse Let_def)

lemma kg_step_keeps_memo:
  "reuseExistingKey cfg \<Longrightarrow> textToKeyMap g text = Some k \<Longrightarrow>
   textToKeyMap (kg_step L cfg g c) text = Some k"
  by (cases c) (auto simp: generateKey_def Let_def loadExistingKeys_def)

lemma foldl_kg_step_keeps_memo:
  "reuseExistingKey cfg \<Longrightarrow> textToKeyMap g text = Some k \<Longrightarrow>
   textToKeyMap (foldl (kg_step L cfg) g cs) text = Some k"
  by (induction cs arbitrary: g) (simp_all add: kg_step_keeps_memo)

lemma md5_shape_demo: "md5_shape demo_libs"
  by (simp add: md5_shape_def demo_libs_def demo_md5_def js_def is_hex_char_def is_digit_def)

subsection \<open>Claims C2, C3, C8 and C9\<close>

lemmas demo_defs = demo_libs_def demo_cfg_def demo_pinyin_def demo_md5_def new_KeyGenerator_def
  text_tijiao_def text_baocun_def text_long_def text_bang_def js_def
lemmas kg_defs = generateKey_def convertToPinyin_def limitLength_def handleDuplicateKey_def
  generateHash_def substring0_def join_def Let_def
lemmas class_defs = is_key_char_def is_lower_def is_upper_def is_digit_def

text \<open>
  Claim C2, as the code has it. \<open>generateKey\<close> is total: a transliteration that throws is
  caught and replaced by the fallback encoding, and nothing else in it can throw. The key
  it returns passes \<open>validateKey\<close> when the configured prefix and separator are made of
  the characters \<open>[a-zA-Z0-9_.-]\<close>, the separator is not empty, the digest is
  hexadecimal, the transliteration (when \<open>pinyin\<close> returns one) is not empty and made of
  those characters, and a key memoised for the text is itself valid. Nothing in
  \<open>generateKey\<close> filters the characters of the transliteration, of the prefix or of the
  separator.
\<close>

theorem generateKey_valid:
  assumes md5: "md5_shape L"
      and sep: "separator cfg \<noteq> []" "list_all is_key_char (separator cfg)"
      and pre: "list_all is_key_char (keyPrefix cfg)"
      and pin: "\<forall>r. pinyin_result L cfg text = Some r \<longrightarrow> r \<noteq> [] \<and> list_all is_key_char r"
      and memo: "\<forall>k. textToKeyMap g text = Some k \<longrightarrow> validateKey cfg k"
  shows "validateKey cfg (fst (generateKey L cfg g now text))"
proof (cases "reuseExistingKey cfg \<and> textToKeyMap g text \<noteq> None")
  case True
  then show ?thesis using memo by (auto simp: generateKey_def)
next
  case False
  let ?base = "limitLength L cfg (convertToPinyin L cfg text) text"
  let ?key = "if keyPrefix cfg \<noteq> [] then keyPrefix cfg @ separator cfg @ ?base else ?base"
  have b0: "?base \<noteq> [] \<and> list_all is_key_char ?base"
    using convertToPinyin_valid[OF md5 pin] by (intro limitLength_valid[OF md5 sep]) auto
  have h: "list_all is_key_char (generateHash L (text @ to_radix 10 now) (hashLength cfg))"
    by (rule generateHash_key_chars[OF md5])
  have "validateKey cfg ?key"
    using b0 sep pre by (simp add: validateKey_def)
  moreover have "validateKey cfg (handleDuplicateKey L cfg now ?key text)"
    using b0 sep pre h by (simp add: validateKey_def handleDuplicateKey_def Let_def)
  ultimately show ?thesis
    using False by (auto simp: generateKey_def Let_def)
qed

theorem generateKey_valid_witness:
  "md5_shape demo_libs \<and> separator demo_cfg = js ''_'' \<and> keyPrefix demo_cfg = []
   \<and> pinyin_result demo_libs demo_cfg text_tijiao = Some (js ''ti_jiao'')
   \<and> textToKeyMap new_KeyGenerator text_tijiao = None
   \<and> fst (generateKey demo_libs demo_cfg new_KeyGenerator 1700000000000 text_tijiao) = js ''ti_jiao''
   \<and> validateKey demo_cfg (fst (generateKey demo_libs demo_cfg new_KeyGenerator 1700000000000 text_tijiao))"
proof -
  have sep: "separator demo_cfg = js ''_''" and pre: "keyPrefix demo_cfg = []"
    by (simp_all add: demo_cfg_def)
  have pin: "pinyin_result demo_libs demo_cfg text_tijiao = Some (js ''ti_jiao'')"
    by (simp add: pinyin_result_def join_def demo_defs)
  have memo: "textToKeyMap new_KeyGenerator text_tijiao = None"
    by (simp add: new_KeyGenerator_def)
  have val: "fst (generateKey demo_libs demo_cfg new_KeyGenerator 1700000000000 text_tijiao) = js ''ti_jiao''"
    by (simp add: kg_defs demo_defs)
  have "validateKey demo_cfg (fst (generateKey demo_libs demo_cfg new_KeyGenerator 1700000000000 text_tijiao))"
  proof (rule generateKey_valid[OF md5_shape_demo])
    show "separator demo_cfg \<noteq> []" by (simp add: sep js_def)
    show "list_all is_key_char (separator demo_cfg)" by (simp add: sep js_def class_defs)
    show "list_all is_key_char (keyPrefix demo_cfg)" by (simp add: pre)
    show "\<forall>r. pinyin_result demo_libs demo_cfg text_tijiao = Some r \<longrightarrow> r \<noteq> [] \<and> list_all is_key_char r"
      by (simp add: pin) (simp add: js_def class_defs)
    show "\<forall>k. textToKeyMap new_KeyGenerator text_tijiao = Some k \<longrightarrow> validateKey demo_cfg k"
      by (simp add: memo)
  qed
  with md5_shape_demo sep pre pin memo val show ?thesis by (intro conjI)
qed

lemma space_not_key_char: "\<not> is_key_char 0x20"
  by (simp add: class_defs)

lemma validateKey_key_chars: "validateKey cfg k \<Longrightarrow> list_all is_key_char k"
  by (simp add: validateKey_def split: if_splits)

text \<open>
  Claim C2 as stated fails. With the prefix \<open>my key\<close> no returned key is valid, whatever
  the libraries return; and with the default separator and no prefix, the text made of
  the two characters U+63D0 U+4EA4 and \<open>!\<close> is transliterated to the tokens \<open>ti\<close>,
  \<open>jiao\<close>, \<open>!\<close>, so the key is \<open>ti_jiao_!\<close>, which \<open>validateKey\<close> rejects.
\<close>

theorem generateKey_invalid_counterexample:
  "(\<forall>L g now text. \<not> validateKey spaced_prefix_cfg (fst (generateKey L spaced_prefix_cfg g now text)))
   \<and> fst (generateKey demo_libs demo_cfg new_KeyGenerator 1700000000000 text_bang) = js ''ti_jiao_!''
   \<and> \<not> validateKey demo_cfg (fst (generateKey demo_libs demo_cfg new_KeyGenerator 1700000000000 text_bang))"
proof (intro conjI allI)
  fix L g now t
  have nr: "\<not> reuseExistingKey spaced_prefix_cfg" by (simp add: spaced_prefix_cfg_def)
  have "0x20 \<in> set (keyPrefix spaced_prefix_cfg)" by (simp add: spaced_prefix_cfg_def js_def)
  then have "0x20 \<in> set (baseKey_of L spaced_prefix_cfg t)"
    by (auto simp: baseKey_of_def Let_def)
  then have "0x20 \<in> set (fst (generateKey L spaced_prefix_cfg g now t))"
    by (simp add: generateKey_no_reuse[OF nr] Let_def handleDuplicateKey_def)
  then show "\<not> validateKey spaced_prefix_cfg (fst (generateKey L spaced_prefix_cfg g now t))"
    using space_not_key_char by (auto dest!: validateKey_key_chars simp: list_all_iff)
next
  show v: "fst (generateKey demo_libs demo_cfg new_KeyGenerator 1700000000000 text_bang) = js ''ti_jiao_!''"
    by (simp add: kg_defs demo_defs)
  show "\<not> validateKey demo_cfg (fst (generateKey demo_libs demo_cfg new_KeyGenerator 1700000000000 text_bang))"
    unfolding v by (simp add: validateKey_def demo_cfg_def js_def class_defs)
qed

text \<open>
  Claim C3 fails on the code. With \<open>reuseExistingKey = false\<close>, after any first call with a
  text, two further calls with the same text at the same value of \<open>Date.now()\<close> return
  the same key: the suffix is a digest of the text and the clock value only, and the key
  with the suffix is not checked against the keys already used.
\<close>

theorem generateKey_same_clock_repeats:
  "fst (generateKey L (cfg\<lparr>reuseExistingKey := False\<rparr>)
         (snd (generateKey L (cfg\<lparr>reuseExistingKey := False\<rparr>)
                (snd (generateKey L (cfg\<lparr>reuseExistingKey := False\<rparr>) g now0 text)) now text))
         now text)
   = fst (generateKey L (cfg\<lparr>reuseExistingKey := False\<rparr>)
            (snd (generateKey L (cfg\<lparr>reuseExistingKey := False\<rparr>) g now0 text)) now text)"
proof -
  let ?c = "cfg\<lparr>reuseExistingKey := False\<rparr>"
  let ?g1 = "snd (generateKey L ?c g now0 text)"
  let ?g2 = "snd (generateKey L ?c ?g1 now text)"
  have nr: "\<not> reuseExistingKey ?c" by simp
  have b1: "baseKey_of L ?c text \<in> existingKeys ?g1"
    using nr by (rule generateKey_no_reuse_base_used)
  then have b2: "baseKey_of L ?c text \<in> existingKeys ?g2"
    by (rule generateKey_existing_mono)
  show ?thesis
    by (simp only: generateKey_no_reuse_dup[OF nr b1] generateKey_no_reuse_dup[OF nr b2])
qed

lemma generateKey_same_clock_example:
  "generateKey demo_libs (demo_cfg\<lparr>reuseExistingKey := False\<rparr>) new_KeyGenerator 1699999999999 text_tijiao
     = (js ''ti_jiao'', \<lparr>existingKeys = {js ''ti_jiao''}, textToKeyMap = [text_tijiao \<mapsto> js ''ti_jiao'']\<rparr>)
   \<and> fst (generateKey demo_libs (demo_cfg\<lparr>reuseExistingKey := False\<rparr>)
        \<lparr>existingKeys = {js ''ti_jiao''}, textToKeyMap = [text_tijiao \<mapsto> js ''ti_jiao'']\<rparr>
        1700000000000 text_tijiao) = js ''ti_jiao_15ee6f''
   \<and> fst (generateKey demo_libs (demo_cfg\<lparr>reuseExistingKey := False\<rparr>)
        \<lparr>existingKeys = {js ''ti_jiao'', js ''ti_jiao_15ee6f''},
          textToKeyMap = [text_tijiao \<mapsto> js ''ti_jiao_15ee6f'']\<rparr>
        1700000000000 text_tijiao) = js ''ti_jiao_15ee6f''"
  by (simp add: kg_defs demo_defs to_radix.simps digit_char_def)

text \<open>
  Claim C8. When the transliteration is longer than \<open>maxChineseLength\<close>, the base key is
  its first \<open>maxChineseLength\<close> characters, the separator, and the first \<open>hashLength\<close>
  characters of the digest of the original text; with no prefix, no memoised key and no
  duplicate, this is the key \<open>generateKey\<close> returns.
\<close>

theorem limitLength_truncates_and_hashes:
  assumes "maxChineseLength cfg < int (length (convertToPinyin L cfg text))"
  shows "limitLength L cfg (convertToPinyin L cfg text) text =
           take (nat (maxChineseLength cfg)) (convertToPinyin L cfg text) @ separator cfg
             @ take (nat (hashLength cfg)) (md5_hex L text)
         \<and> (keyPrefix cfg = [] \<and> textToKeyMap g text = None
              \<and> limitLength L cfg (convertToPinyin L cfg text) text \<notin> existingKeys g
            \<longrightarrow> fst (generateKey L cfg g now text) =
                  take (nat (maxChineseLength cfg)) (convertToPinyin L cfg text) @ separator cfg
                    @ take (nat (hashLength cfg)) (md5_hex L text))"
proof -
  have eq: "limitLength L cfg (convertToPinyin L cfg text) text =
           take (nat (maxChineseLength cfg)) (convertToPinyin L cfg text) @ separator cfg
             @ take (nat (hashLength cfg)) (md5_hex L text)"
    using assms by (simp add: limitLength_def substring0_def generateHash_def Let_def)
  have "fst (generateKey L cfg g now text) = limitLength L cfg (convertToPinyin L cfg text) text"
    if "keyPrefix cfg = []" "textToKeyMap g text = None"
       "limitLength L cfg (convertToPinyin L cfg text) text \<notin> existingKeys g"
    using that by (simp add: generateKey_def Let_def)
  with eq show ?thesis by simp
qed

theorem limitLength_truncates_and_hashes_witness:
  "convertToPinyin demo_libs (demo_cfg\<lparr>maxChineseLength := 5\<rparr>) text_long
      = js ''zhe_shi_yi_ge_hen_chang_de_wen_ben''
   \<and> maxChineseLength (demo_cfg\<lparr>maxChineseLength := 5\<rparr>)
        < int (length (convertToPinyin demo_libs (demo_cfg\<lparr>maxChineseLength := 5\<rparr>) text_long))
   \<and> limitLength demo_libs (demo_cfg\<lparr>maxChineseLength := 5\<rparr>)
        (convertToPinyin demo_libs (demo_cfg\<lparr>maxChineseLength := 5\<rparr>) text_long) text_long
      = js ''zhe_s_525e44''"
proof -
  let ?c = "demo_cfg\<lparr>maxChineseLength := 5\<rparr>"
  have p: "convertToPinyin demo_libs ?c text_long = js ''zhe_shi_yi_ge_hen_chang_de_wen_ben''"
    by (simp add: kg_defs demo_defs)
  have h: "maxChineseLength ?c < int (length (convertToPinyin demo_libs ?c text_long))"
    unfolding p by (simp add: demo_cfg_def js_def)
  have "take (nat (maxChineseLength ?c)) (convertToPinyin demo_libs ?c text_long) @ separator ?c
          @ take (nat (hashLength ?c)) (md5_hex demo_libs text_long) = js ''zhe_s_525e44''"
    unfolding p by (simp add: demo_defs)
  with limitLength_truncates_and_hashes[OF h, THEN conjunct1] p h show ?thesis by simp
qed

text \<open>
  Claim C9. With \<open>reuseExistingKey = true\<close>, once \<open>generateKey\<close> has returned a key for a
  text, every later call with that text on the same generator returns the same key,
  whatever calls of \<open>generateKey\<close> and \<open>loadExistingKeys\<close> come in between and whatever
  the clock shows.
\<close>

theorem generateKey_reuse_deterministic:
  assumes "reuseExistingKey cfg"
  shows "fst (generateKey L cfg (foldl (kg_step L cfg) (snd (generateKey L cfg g now text)) cs) now' text)
         = fst (generateKey L cfg g now text)"
proof -
  let ?g1 = "snd (generateKey L cfg g now text)"
  let ?k = "fst (generateKey L cfg g now text)"
  have "textToKeyMap ?g1 text = Some ?k" by (rule generateKey_memo)
  then have "textToKeyMap (foldl (kg_step L cfg) ?g1 cs) text = Some ?k"
    using assms by (rule foldl_kg_step_keeps_memo[rotated])
  then show ?thesis using assms by (simp add: generateKey_hit)
qed

theorem generateKey_reuse_deterministic_witness:
  "reuseExistingKey demo_cfg
   \<and> fst (generateKey demo_libs demo_cfg new_KeyGenerator 1700000000000 text_tijiao) = js ''ti_jiao''
   \<and> fst (generateKey demo_libs demo_cfg
        (foldl (kg_step demo_libs demo_cfg)
           (snd (generateKey demo_libs demo_cfg new_KeyGenerator 1700000000000 text_tijiao))
           [Generate 1700000000001 text_baocun, Load [js ''ti_jiao'', js ''bao_cun'']])
        1700000000002 text_tijiao)
     = fst (generateKey demo_libs demo_cfg new_KeyGenerator 1700000000000 text_tijiao)"
proof -
  have h: "reuseExistingKey demo_cfg" by (simp add: demo_cfg_def)
  have v: "fst (generateKey demo_libs demo_cfg new_KeyGenerator 1700000000000 text_tijiao) = js ''ti_jiao''"
    by (simp add: kg_defs demo_defs)
  show ?thesis by (intro conjI h v generateKey_reuse_deterministic[OF h])
qed

section \<open>Properties of the cache\<close>

lemma enforce_delete_in_range:
  "toDelete \<le> int (length entries) \<Longrightarrow>
   enforce_delete entries toDelete i m =
     Inr (filter (\<lambda>p. fst p \<notin> fst ` set (drop i (take (nat toDelete) entries))) m)"
proof (induction entries toDelete i m rule: enforce_delete.induct)
  case (1 entries toDelete i m)
  show ?case
  proof (cases "int i < toDelete")
    case True
    then have il: "i < length entries" using 1(2) by linarith
    have "i < nat toDelete" using True by linarith
    then have d: "drop i (take (nat toDelete) entries) = entries ! i # drop (Suc i) (take (nat toDelete) entries)"
      using il by (metis Cons_nth_drop_Suc length_take min_less_iff_conj nth_take)
    have "enforce_delete entries toDelete i m
          = enforce_delete entries toDelete (Suc i) (AList.delete (fst (entries ! i)) m)"
      using True il by (subst enforce_delete.simps) simp
    also have "\<dots> = Inr (filter (\<lambda>p. fst p \<notin> fst ` set (drop (Suc i) (take (nat toDelete) entries)))
                        (AList.delete (fst (entries ! i)) m))"
      using 1(1)[OF True il 1(2)] .
    also have "\<dots> = Inr (filter (\<lambda>p. fst p \<notin> fst ` set (drop i (take (nat toDelete) entries))) m)"
      unfolding d by (auto simp: AList.delete_eq intro!: filter_cong)
    finally show ?thesis .
  next
    case False
    then have "drop i (take (nat toDelete) entries) = []" by simp
    with False show ?thesis by (subst enforce_delete.simps) simp
  qed
qed

lemma sorted_take_drop_le:
  assumes "sorted (map f s)" "q \<in> set (take n s)" "p \<in> set (drop n s)"
  shows "f q \<le> f p"
proof -
  have "sorted (map f (take n s) @ map f (drop n s))"
    using assms(1) by (simp flip: map_append)
  then show ?thesis using assms(2,3) by (auto simp: sorted_append)
qed

lemma enforceSizeLimit_ok:
  assumes max: "0 \<le> maxEntries (config c)" and dist: "distinct (map fst (memoryCache c))"
  shows "\<exists>m. enforceSizeLimit c = Inr (c\<lparr>memoryCache := m\<rparr>)
           \<and> int (length m) = min (int (length (memoryCache c))) (maxEntries (config c))
           \<and> m = filter (\<lambda>p. p \<in> set m) (memoryCache c) \<and> distinct (map fst m)
           \<and> (\<forall>p \<in> set m. \<forall>q \<in> set (memoryCache c) - set m.
                 timestamp (snd q) \<le> timestamp (snd p))"
proof (cases "int (length (memoryCache c)) \<le> maxEntries (config c)")
  case True
  then have "enforceSizeLimit c = Inr (c\<lparr>memoryCache := memoryCache c\<rparr>)"
    by (simp add: enforceSizeLimit_def)
  with True dist show ?thesis by (intro exI[of _ "memoryCache c"]) simp
next
  case False
  define xs where "xs = memoryCache c"
  define f where "f = (\<lambda>(key :: jsstring, entry :: 'a CacheEntry). timestamp entry)"
  define s where "s = sort_key f xs"
  define n where "n = nat (int (length xs) - maxEntries (config c))"
  define m where "m = filter (\<lambda>p. fst p \<notin> fst ` set (take n s)) xs"
  have f_snd: "f p = timestamp (snd p)" for p by (cases p) (simp add: f_def)
  have dxs: "distinct xs" using dist unfolding xs_def by (simp add: distinct_map)
  have inj: "inj_on fst (set xs)" using dist unfolding xs_def by (simp add: distinct_map)
  have set_s: "set s = set xs" and len_s: "length s = length xs" and ds: "distinct s"
    using dxs by (simp_all add: s_def)
  have n_le: "n \<le> length xs" and n_val: "int (length xs) - int n = maxEntries (config c)"
    using False max unfolding n_def xs_def by linarith+
  have key_iff: "fst p \<in> fst ` set (take n s) \<longleftrightarrow> p \<in> set (take n s)" if "p \<in> set xs" for p
  proof
    assume "fst p \<in> fst ` set (take n s)"
    then obtain q where q: "q \<in> set (take n s)" "fst q = fst p" by auto
    then have "q \<in> set xs" using set_s by (auto dest: in_set_takeD)
    with inj that q(2) have "q = p" by (auto dest: inj_onD)
    with q(1) show "p \<in> set (take n s)" by simp
  qed auto
  have split: "set (take n s) \<union> set (drop n s) = set xs" "set (take n s) \<inter> set (drop n s) = {}"
    using ds set_s
     apply (metis append_take_drop_id set_append)
    apply (metis append_take_drop_id distinct_append ds)
    done
  have set_m: "set m = set (drop n s)"
    using key_iff split by (auto simp: m_def)
  have dm: "distinct m" using dxs by (simp add: m_def)
  have "length m = card (set m)" using dm by (simp add: distinct_card)
  also have "\<dots> = length (drop n s)" unfolding set_m using ds by (simp add: distinct_card)
  finally have len_m: "int (length m) = maxEntries (config c)"
    using n_val n_le len_s by simp
  have evicted: "set xs - set m = set (take n s)"
    using split set_m by auto
  have srt: "sorted (map f s)" by (simp add: s_def)
  have order: "\<forall>p \<in> set m. \<forall>q \<in> set xs - set m. timestamp (snd q) \<le> timestamp (snd p)"
  proof (intro ballI)
    fix p q
    assume "p \<in> set m" "q \<in> set xs - set m"
    then have "q \<in> set (take n s)" "p \<in> set (drop n s)"
      using set_m evicted by auto
    then have "f q \<le> f p" by (rule sorted_take_drop_le[OF srt])
    then show "timestamp (snd q) \<le> timestamp (snd p)" by (simp add: f_snd)
  qed
  have "toDelete \<le> int (length s)" if "toDelete = int (length xs) - maxEntries (config c)" for toDelete
    using that max len_s by simp
  then have del: "enforce_delete s (int (length xs) - maxEntries (config c)) 0 xs = Inr m"
    by (simp add: enforce_delete_in_range m_def n_def)
  have "enforceSizeLimit c = Inr (c\<lparr>memoryCache := m\<rparr>)"
    using False del by (simp add: enforceSizeLimit_def Let_def xs_def[symmetric] s_def f_def)
  moreover have "m = filter (\<lambda>p. p \<in> set m) xs"
    unfolding m_def by (rule filter_cong) auto
  moreover have "distinct (map fst m)"
    using dist unfolding m_def xs_def by (rule distinct_map_filter)
  moreover have "int (length m) = min (int (length xs)) (maxEntries (config c))"
    using len_m False by (simp add: xs_def)
  ultimately show ?thesis using order unfolding xs_def by blast
qed

lemma enforce_delete_out_of_range:
  "int (length entries) < toDelete \<Longrightarrow> i \<le> length entries \<Longrightarrow>
   enforce_delete entries toDelete i m = Inl TypeError_undefined"
proof (induction "length entries - i" arbitrary: i m)
  case 0
  then have "i = length entries" by simp
  with 0 show ?case by (subst enforce_delete.simps) simp
next
  case (Suc d)
  then have il: "i < length entries" by linarith
  have "enforce_delete entries toDelete i m
        = enforce_delete entries toDelete (Suc i) (AList.delete (fst (entries ! i)) m)"
    using il Suc.prems(1) by (subst enforce_delete.simps) simp
  also have "\<dots> = Inl TypeError_undefined"
    using Suc il by (intro Suc(1)) simp_all
  finally show ?case .
qed

lemma enforceSizeLimit_negative:
  assumes "maxEntries (config c) < 0"
  shows "enforceSizeLimit c = Inl TypeError_undefined"
proof -
  have "int (length (sort_key (\<lambda>(key, entry). timestamp entry) (memoryCache c)))
          < int (length (memoryCache c)) - maxEntries (config c)"
    using assms by simp
  then have "enforce_delete (sort_key (\<lambda>(key, entry). timestamp entry) (memoryCache c))
               (int (length (memoryCache c)) - maxEntries (config c)) 0 (memoryCache c)
             = Inl TypeError_undefined"
    by (rule enforce_delete_out_of_range) simp
  then show ?thesis using assms by (simp add: enforceSizeLimit_def Let_def)
qed

lemma cache_set_enabled:
  "enabled (config c) \<Longrightarrow> cache_set H now key d ttl c =
     enforceSizeLimit (c\<lparr>memoryCache := AList.update key (new_entry H now d ttl (config c)) (memoryCache c)\<rparr>)"
  by (simp add: cache_set_def new_entry_def Let_def)

lemma cache_set_general:
  assumes en: "enabled (config c)" and dist: "distinct (map fst (memoryCache c))"
  shows "((\<exists>c'. cache_set H now key d ttl c = Inr c') \<longleftrightarrow> 0 \<le> maxEntries (config c))
       \<and> (\<forall>c'. cache_set H now key d ttl c = Inr c' \<longrightarrow>
             config c' = config c
           \<and> int (length (memoryCache c'))
               = min (int (length (AList.update key (new_entry H now d ttl (config c)) (memoryCache c))))
                     (maxEntries (config c))
           \<and> memoryCache c'
               = filter (\<lambda>p. p \<in> set (memoryCache c'))
                   (AList.update key (new_entry H now d ttl (config c)) (memoryCache c))
           \<and> distinct (map fst (memoryCache c'))
           \<and> (\<forall>p \<in> set (memoryCache c').
                \<forall>q \<in> set (AList.update key (new_entry H now d ttl (config c)) (memoryCache c))
                      - set (memoryCache c').
                  timestamp (snd q) \<le> timestamp (snd p)))"
proof (cases "0 \<le> maxEntries (config c)")
  case True
  let ?u = "c\<lparr>memoryCache := AList.update key (new_entry H now d ttl (config c)) (memoryCache c)\<rparr>"
  have "0 \<le> maxEntries (config ?u)" using True by simp
  moreover have "distinct (map fst (memoryCache ?u))" using dist by (simp add: distinct_update)
  ultimately obtain m where m: "enforceSizeLimit ?u = Inr (?u\<lparr>memoryCache := m\<rparr>)"
      "int (length m) = min (int (length (memoryCache ?u))) (maxEntries (config ?u))"
      "m = filter (\<lambda>p. p \<in> set m) (memoryCache ?u)"
      "distinct (map fst m)"
      "\<forall>p \<in> set m. \<forall>q \<in> set (memoryCache ?u) - set m. timestamp (snd q) \<le> timestamp (snd p)"
    using enforceSizeLimit_ok[of ?u] by blast
  have r: "cache_set H now key d ttl c = Inr (?u\<lparr>memoryCache := m\<rparr>)"
    using m(1) by (simp add: cache_set_enabled[OF en])
  show ?thesis
    unfolding r using True m(2-5) by simp
next
  case False
  let ?u = "c\<lparr>memoryCache := AList.update key (new_entry H now d ttl (config c)) (memoryCache c)\<rparr>"
  have "enforceSizeLimit ?u = Inl TypeError_undefined"
    using False by (intro enforceSizeLimit_negative) simp
  then have "cache_set H now key d ttl c = Inl TypeError_undefined"
    by (simp add: cache_set_enabled[OF en])
  with False show ?thesis by simp
qed

lemma cache_set_scenario:
  assumes "enabled cfg" "maxEntries cfg = 2" "k1 \<noteq> k2" "k1 \<noteq> k3" "k2 \<noteq> k3" "t1 < t2" "t2 < t3"
  shows "\<exists>c1 c2 c3. cache_set H t1 k1 d1 None (new_CacheManager cfg) = Inr c1
           \<and> cache_set H t2 k2 d2 None c1 = Inr c2
           \<and> cache_set H t3 k3 d3 None c2 = Inr c3
           \<and> map fst (memoryCache c3) = [k2, k3]
           \<and> (\<forall>now. fst (cache_get now k1 c3) = None \<and> \<not> fst (cache_has now k1 c3))
           \<and> (\<forall>now. now \<le> t2 + defaultTTL cfg \<longrightarrow>
                 fst (cache_get now k2 c3) = Some d2 \<and> fst (cache_get now k3 c3) = Some d3)"
proof -
  let ?e1 = "new_entry H t1 d1 None cfg" and ?e2 = "new_entry H t2 d2 None cfg"
  and ?e3 = "new_entry H t3 d3 None cfg"
  let ?c1 = "\<lparr>config = cfg, memoryCache = [(k1, ?e1)]\<rparr>"
  let ?c2 = "\<lparr>config = cfg, memoryCache = [(k1, ?e1), (k2, ?e2)]\<rparr>"
  let ?c3 = "\<lparr>config = cfg, memoryCache = [(k2, ?e2), (k3, ?e3)]\<rparr>"
  have s1: "cache_set H t1 k1 d1 None (new_CacheManager cfg) = Inr ?c1"
    using assms by (simp add: cache_set_enabled new_CacheManager_def enforceSizeLimit_def)
  have s2: "cache_set H t2 k2 d2 None ?c1 = Inr ?c2"
    using assms by (simp add: cache_set_enabled enforceSizeLimit_def)
  have ts: "timestamp ?e1 = t1" "timestamp ?e2 = t2" "timestamp ?e3 = t3"
    by (simp_all add: new_entry_def)
  have s3: "cache_set H t3 k3 d3 None ?c2 = Inr ?c3"
    using assms by (simp add: cache_set_enabled enforceSizeLimit_def ts enforce_delete.simps)
  have g1: "\<forall>now. fst (cache_get now k1 ?c3) = None \<and> \<not> fst (cache_has now k1 ?c3)"
    using assms by (simp add: cache_get_def cache_has_def)
  have g2: "\<forall>now. now \<le> t2 + defaultTTL cfg \<longrightarrow>
                 fst (cache_get now k2 ?c3) = Some d2 \<and> fst (cache_get now k3 ?c3) = Some d3"
    using assms by (simp add: cache_get_def isExpired_def new_entry_def)
  from s1 s2 s3 g1 g2 show ?thesis by (intro exI[of _ ?c1] exI[of _ ?c2] exI[of _ ?c3]) simp
qed


lemmas cache_demo_defs = demo_cache_cfg_def demo_entry_def disable_patch_def three_entries_def
  new_CacheManager_def demo_md5_def text_tijiao_def text_long_def js_def

text \<open>
  Claim C6, as the code has it. In every state, \<open>get\<close> returns data and \<open>has\<close> answers
  true only for an entry that has not expired. When the cache is enabled, an access to an
  expired entry removes it and reports a miss. When the cache is disabled, \<open>get\<close> and
  \<open>has\<close> report a miss and leave the store as it is.
\<close>

theorem cache_get_has_expiry:
  "(fst (cache_get now key c) = Some d \<longrightarrow>
      (\<exists>e. map_of (memoryCache c) key = Some e \<and> data e = d \<and> \<not> now > expiresAt e))
   \<and> (fst (cache_has now key c) \<longrightarrow>
      (\<exists>e. map_of (memoryCache c) key = Some e \<and> \<not> now > expiresAt e))
   \<and> (enabled (config c) \<and> map_of (memoryCache c) key = Some e \<and> now > expiresAt e \<longrightarrow>
        cache_get now key c = (None, c\<lparr>memoryCache := AList.delete key (memoryCache c)\<rparr>)
      \<and> cache_has now key c = (False, c\<lparr>memoryCache := AList.delete key (memoryCache c)\<rparr>)
      \<and> map_of (AList.delete key (memoryCache c)) key = None)
   \<and> (\<not> enabled (config c) \<longrightarrow> cache_get now key c = (None, c) \<and> cache_has now key c = (False, c))"
  by (auto simp: cache_get_def cache_has_def isExpired_def AList.delete_conv split: option.splits if_splits)


theorem cache_get_has_expiry_witness:
  "enabled (config (new_CacheManager demo_cache_cfg\<lparr>memoryCache := [(js ''a'', demo_entry 1 (js ''x''))]\<rparr>))
   \<and> map_of [(js ''a'', demo_entry 1 (js ''x''))] (js ''a'') = Some (demo_entry 1 (js ''x''))
   \<and> expiresAt (demo_entry 1 (js ''x'')) < 86400002
   \<and> cache_get 86400002 (js ''a'')
        (new_CacheManager demo_cache_cfg\<lparr>memoryCache := [(js ''a'', demo_entry 1 (js ''x''))]\<rparr>)
      = (None, new_CacheManager demo_cache_cfg)
   \<and> cache_has 86400002 (js ''a'')
        (new_CacheManager demo_cache_cfg\<lparr>memoryCache := [(js ''a'', demo_entry 1 (js ''x''))]\<rparr>)
      = (False, new_CacheManager demo_cache_cfg)
   \<and> fst (cache_get 86400001 (js ''a'')
        (new_CacheManager demo_cache_cfg\<lparr>memoryCache := [(js ''a'', demo_entry 1 (js ''x''))]\<rparr>))
      = Some (js ''x'')"
  using cache_get_has_expiry[of 86400002 "js ''a''"
      "new_CacheManager demo_cache_cfg\<lparr>memoryCache := [(js ''a'', demo_entry 1 (js ''x''))]\<rparr>"
      "js ''x''" "demo_entry 1 (js ''x'')"]
  by (simp add: cache_demo_defs cache_get_def cache_has_def isExpired_def)

text \<open>
  Claim C6 as stated fails on a disabled cache. After \<open>updateConfig({enabled: false,
  maxEntries: 2})\<close> the store still holds its three entries; at time 86400010 all have
  expired, \<open>get\<close> and \<open>has\<close> report a miss, and the expired entry is still there.
\<close>

theorem cache_get_disabled_counterexample:
  "\<not> enabled (config (updateConfig disable_patch three_entries))
   \<and> map_of (memoryCache (updateConfig disable_patch three_entries)) (js ''a'')
       = Some (demo_entry 1 (js ''x''))
   \<and> isExpired 86400010 (demo_entry 1 (js ''x''))
   \<and> cache_get 86400010 (js ''a'') (updateConfig disable_patch three_entries)
       = (None, updateConfig disable_patch three_entries)
   \<and> cache_has 86400010 (js ''a'') (updateConfig disable_patch three_entries)
       = (False, updateConfig disable_patch three_entries)
   \<and> map_of (memoryCache (snd (cache_get 86400010 (js ''a'') (updateConfig disable_patch three_entries))))
        (js ''a'') \<noteq> None"
  by (simp add: cache_demo_defs updateConfig_def cache_get_def cache_has_def isExpired_def)

text \<open>
  Claim C7, as the code has it. On an enabled cache a \<open>set\<close> completes exactly when
  \<open>maxEntries\<close> is not negative, and after every completed \<open>set\<close> the cache holds at most
  \<open>maxEntries\<close> entries: when the bound is exceeded the oldest entries by creation
  timestamp are evicted until the bound holds and no further, so exactly \<open>maxEntries\<close>
  entries remain, in their order of insertion, none of them older than an evicted one;
  when the bound is not exceeded nothing is evicted. In particular, with
  \<open>maxEntries = 2\<close>, three distinct keys stored at increasing times leave the second and
  third entries, retrievable until they expire, and the first is gone. The keys of the
  \<open>Map\<close> are distinct.
\<close>

theorem cache_set_enforces_bound:
  "(enabled (config c) \<and> distinct (map fst (memoryCache c)) \<longrightarrow>
      ((\<exists>c'. cache_set H now key d ttl c = Inr c') \<longleftrightarrow> 0 \<le> maxEntries (config c))
      \<and> (\<forall>c'. cache_set H now key d ttl c = Inr c' \<longrightarrow>
             config c' = config c
           \<and> int (length (memoryCache c')) \<le> maxEntries (config c)
           \<and> int (length (memoryCache c'))
               = min (int (length (AList.update key (new_entry H now d ttl (config c)) (memoryCache c))))
                     (maxEntries (config c))
           \<and> memoryCache c'
               = filter (\<lambda>p. p \<in> set (memoryCache c'))
                   (AList.update key (new_entry H now d ttl (config c)) (memoryCache c))
           \<and> distinct (map fst (memoryCache c'))
           \<and> (\<forall>p \<in> set (memoryCache c').
                \<forall>q \<in> set (AList.update key (new_entry H now d ttl (config c)) (memoryCache c))
                      - set (memoryCache c').
                  timestamp (snd q) \<le> timestamp (snd p))))
   \<and> (enabled cfg \<and> maxEntries cfg = 2 \<and> k1 \<noteq> k2 \<and> k1 \<noteq> k3 \<and> k2 \<noteq> k3 \<and> t1 < t2 \<and> t2 < t3 \<longrightarrow>
      (\<exists>c1 c2 c3. cache_set H t1 k1 d1 None (new_CacheManager cfg) = Inr c1
           \<and> cache_set H t2 k2 d2 None c1 = Inr c2
           \<and> cache_set H t3 k3 d3 None c2 = Inr c3
           \<and> map fst (memoryCache c3) = [k2, k3]
           \<and> (\<forall>now. fst (cache_get now k1 c3) = None \<and> \<not> fst (cache_has now k1 c3))
           \<and> (\<forall>now. now \<le> t2 + defaultTTL cfg \<longrightarrow>
                 fst (cache_get now k2 c3) = Some d2 \<and> fst (cache_get now k3 c3) = Some d3)))"
proof (intro conjI impI)
  assume a: "enabled (config c) \<and> distinct (map fst (memoryCache c))"
  then have en: "enabled (config c)" and dist: "distinct (map fst (memoryCache c))" by simp_all
  note g = cache_set_general[OF en dist, of H now key d ttl]
  show "(\<exists>c'. cache_set H now key d ttl c = Inr c') \<longleftrightarrow> 0 \<le> maxEntries (config c)"
    using g by (rule conjunct1)
  show "\<forall>c'. cache_set H now key d ttl c = Inr c' \<longrightarrow>
             config c' = config c
           \<and> int (length (memoryCache c')) \<le> maxEntries (config c)
           \<and> int (length (memoryCache c'))
               = min (int (length (AList.update key (new_entry H now d ttl (config c)) (memoryCache c))))
                     (maxEntries (config c))
           \<and> memoryCache c'
               = filter (\<lambda>p. p \<in> set (memoryCache c'))
                   (AList.update key (new_entry H now d ttl (config c)) (memoryCache c))
           \<and> distinct (map fst (memoryCache c'))
           \<and> (\<forall>p \<in> set (memoryCache c').
                \<forall>q \<in> set (AList.update key (new_entry H now d ttl (config c)) (memoryCache c))
                      - set (memoryCache c').
                  timestamp (snd q) \<le> timestamp (snd p))"
  proof (intro allI impI)
    fix c' assume r: "cache_set H now key d ttl c = Inr c'"
    from g[THEN conjunct2, rule_format, OF r]
    show "config c' = config c
           \<and> int (length (memoryCache c')) \<le> maxEntries (config c)
           \<and> int (length (memoryCache c'))
               = min (int (length (AList.update key (new_entry H now d ttl (config c)) (memoryCache c))))
                     (maxEntries (config c))
           \<and> memoryCache c'
               = filter (\<lambda>p. p \<in> set (memoryCache c'))
                   (AList.update key (new_entry H now d ttl (config c)) (memoryCache c))
           \<and> distinct (map fst (memoryCache c'))
           \<and> (\<forall>p \<in> set (memoryCache c').
                \<forall>q \<in> set (AList.update key (new_entry H now d ttl (config c)) (memoryCache c))
                      - set (memoryCache c').
                  timestamp (snd q) \<le> timestamp (snd p))"
      by (simp add: min_def)
  qed
next
  assume "enabled cfg \<and> maxEntries cfg = 2 \<and> k1 \<noteq> k2 \<and> k1 \<noteq> k3 \<and> k2 \<noteq> k3 \<and> t1 < t2 \<and> t2 < t3"
  then show "\<exists>c1 c2 c3. cache_set H t1 k1 d1 None (new_CacheManager cfg) = Inr c1
           \<and> cache_set H t2 k2 d2 None c1 = Inr c2
           \<and> cache_set H t3 k3 d3 None c2 = Inr c3
           \<and> map fst (memoryCache c3) = [k2, k3]
           \<and> (\<forall>now. fst (cache_get now k1 c3) = None \<and> \<not> fst (cache_has now k1 c3))
           \<and> (\<forall>now. now \<le> t2 + defaultTTL cfg \<longrightarrow>
                 fst (cache_get now k2 c3) = Some d2 \<and> fst (cache_get now k3 c3) = Some d3)"
    using cache_set_scenario[of cfg k1 k2 k3 t1 t2 t3 H d1 d2 d3] by blast
qed

theorem cache_set_enforces_bound_witness:
  "enabled (config (three_entries\<lparr>config := demo_cache_cfg\<rparr>))
   \<and> maxEntries (config (three_entries\<lparr>config := demo_cache_cfg\<rparr>)) = 2
   \<and> distinct (map fst (memoryCache (three_entries\<lparr>config := demo_cache_cfg\<rparr>)))
   \<and> cache_set demo_md5 4 (js ''d'') (js ''w'') None (three_entries\<lparr>config := demo_cache_cfg\<rparr>)
        = Inr \<lparr>config = demo_cache_cfg,
               memoryCache = [(js ''c'', demo_entry 3 (js ''z'')), (js ''d'', demo_entry 4 (js ''w''))]\<rparr>
   \<and> int (length (memoryCache \<lparr>config = demo_cache_cfg,
               memoryCache = [(js ''c'', demo_entry 3 (js ''z'')), (js ''d'', demo_entry 4 (js ''w''))]\<rparr>))
        = min (int (length (AList.update (js ''d'')
                  (new_entry demo_md5 4 (js ''w'') None (config (three_entries\<lparr>config := demo_cache_cfg\<rparr>)))
                  (memoryCache (three_entries\<lparr>config := demo_cache_cfg\<rparr>)))))
              (maxEntries (config (three_entries\<lparr>config := demo_cache_cfg\<rparr>)))
   \<and> cache_set demo_md5 4 (js ''d'') (js ''w'') None three_entries
        = Inr (three_entries\<lparr>memoryCache := memoryCache three_entries @ [(js ''d'', demo_entry 4 (js ''w''))]\<rparr>)"
proof -
  let ?c = "three_entries\<lparr>config := demo_cache_cfg\<rparr>"
  let ?r = "\<lparr>config = demo_cache_cfg,
               memoryCache = [(js ''c'', demo_entry 3 (js ''z'')), (js ''d'', demo_entry 4 (js ''w''))]\<rparr>"
  have h: "enabled (config ?c) \<and> distinct (map fst (memoryCache ?c))"
    by (simp add: cache_demo_defs)
  have m: "maxEntries (config ?c) = 2" by (simp add: cache_demo_defs)
  have v: "cache_set demo_md5 4 (js ''d'') (js ''w'') None ?c = Inr ?r"
    by (simp add: cache_demo_defs cache_set_def enforceSizeLimit_def enforce_delete.simps)
  have l: "int (length (memoryCache ?r))
        = min (int (length (AList.update (js ''d'') (new_entry demo_md5 4 (js ''w'') None (config ?c))
                  (memoryCache ?c)))) (maxEntries (config ?c))"
    using cache_set_enforces_bound[THEN conjunct1, rule_format, OF h, THEN conjunct2, rule_format, OF v]
    by blast
  have w: "cache_set demo_md5 4 (js ''d'') (js ''w'') None three_entries
        = Inr (three_entries\<lparr>memoryCache := memoryCache three_entries @ [(js ''d'', demo_entry 4 (js ''w''))]\<rparr>)"
    by (simp add: cache_demo_defs cache_set_def enforceSizeLimit_def)
  from h m v l w show ?thesis by (intro conjI) simp_all
qed

text \<open>
  Claim C7 as stated fails on a disabled cache: \<open>set\<close> returns at once. After
  \<open>updateConfig({enabled: false, maxEntries: 2})\<close> on a cache of three entries, a \<open>set\<close>
  completes and the cache still holds three entries.
\<close>

theorem cache_set_disabled_counterexample:
  "cache_set demo_md5 4 (js ''d'') (js ''w'') None (updateConfig disable_patch three_entries)
     = Inr (updateConfig disable_patch three_entries)
   \<and> length (memoryCache (updateConfig disable_patch three_entries)) = 3
   \<and> maxEntries (config (updateConfig disable_patch three_entries)) = 2"
  by (simp add: cache_demo_defs updateConfig_def cache_set_def)

lemma three_entries_reached:
  "cache_set demo_md5 1 (js ''a'') (js ''x'') None (new_CacheManager (demo_cache_cfg\<lparr>maxEntries := 1000\<rparr>))
     = Inr (three_entries\<lparr>memoryCache := take 1 (memoryCache three_entries)\<rparr>)
   \<and> cache_set demo_md5 2 (js ''b'') (js ''y'') None (three_entries\<lparr>memoryCache := take 1 (memoryCache three_entries)\<rparr>)
     = Inr (three_entries\<lparr>memoryCache := take 2 (memoryCache three_entries)\<rparr>)
   \<and> cache_set demo_md5 3 (js ''c'') (js ''z'') None (three_entries\<lparr>memoryCache := take 2 (memoryCache three_entries)\<rparr>)
     = Inr three_entries"
  by (simp add: cache_demo_defs cache_set_def enforceSizeLimit_def)

section \<open>Properties of the retry loops\<close>

lemma backoff_trace_step: "a < n \<Longrightarrow> backoff_trace base a n = Invoke # Sleep (base * 2 ^ a) # backoff_trace base (Suc a) n"
  by (simp add: backoff_trace_def upt_conv_Cons)

lemma backoff_trace_last: "backoff_trace base n n = [Invoke]"
  by (simp add: backoff_trace_def)

lemma invokeWithRetry_loop_failing:
  assumes "\<forall>n. llm n prompt = Inl (E n)"
  shows "0 \<le> maxRetries \<Longrightarrow> nat maxRetries = a + r \<Longrightarrow>
     invokeWithRetry_loop llm prompt maxRetries a lastError w =
       (Inl (toError (E (invocations w + r))),
        \<lparr>invocations = invocations w + r + 1,
         trace = trace w @ backoff_trace 1000 a (nat maxRetries)\<rparr>)"
proof (induction r arbitrary: a lastError w)
  case 0
  then have eq: "int a = maxRetries" by linarith
  then have a: "a = nat maxRetries" by simp
  have "invokeWithRetry_loop llm prompt maxRetries a lastError w
        = invokeWithRetry_loop llm prompt maxRetries (Suc a) (Some (toError (E (invocations w)))) (invoked w)"
    using eq assms by (subst invokeWithRetry_loop.simps) simp
  also have "\<dots> = (Inl (toError (E (invocations w))), invoked w)"
    using eq by (subst invokeWithRetry_loop.simps) simp
  finally show ?case
    by (simp add: a invoked_def backoff_trace_last)
next
  case (Suc r)
  then have lt: "int a < maxRetries" and a_lt: "a < nat maxRetries" by linarith+
  let ?w = "sleep (2 ^ a * 1000) (invoked w)"
  have "invokeWithRetry_loop llm prompt maxRetries a lastError w
        = invokeWithRetry_loop llm prompt maxRetries (Suc a) (Some (toError (E (invocations w)))) ?w"
    using lt assms by (subst invokeWithRetry_loop.simps) simp
  also have "\<dots> = (Inl (toError (E (invocations ?w + r))),
        \<lparr>invocations = invocations ?w + r + 1,
         trace = trace ?w @ backoff_trace 1000 (Suc a) (nat maxRetries)\<rparr>)"
    using Suc(2,3) by (intro Suc(1)) simp_all
  finally show ?case
    by (simp add: invoked_def sleep_def backoff_trace_step[OF a_lt] mult.commute)
qed

lemma withRetry_loop_failing:
  assumes "\<forall>n. operation n = Inl (E n)" "\<forall>e. opt_shouldRetry options e"
  shows "0 \<le> opt_maxRetries options \<Longrightarrow> nat (opt_maxRetries options) = a + r \<Longrightarrow>
     withRetry_loop operation options a lastError w =
       (Inl (E (invocations w + r)),
        \<lparr>invocations = invocations w + r + 1,
         trace = trace w @ backoff_trace (opt_baseDelay options) a (nat (opt_maxRetries options))\<rparr>)"
proof (induction r arbitrary: a lastError w)
  case 0
  then have eq: "int a = opt_maxRetries options" by linarith
  then have a: "a = nat (opt_maxRetries options)" by simp
  have "withRetry_loop operation options a lastError w = (Inl (E (invocations w)), invoked w)"
    using eq assms by (subst withRetry_loop.simps) simp
  then show ?case
    by (simp add: a invoked_def backoff_trace_last)
next
  case (Suc r)
  then have lt: "int a < opt_maxRetries options" and a_lt: "a < nat (opt_maxRetries options)"
    by linarith+
  let ?w = "sleep (opt_baseDelay options * 2 ^ a) (invoked w)"
  have "withRetry_loop operation options a lastError w
        = withRetry_loop operation options (Suc a) (Some (E (invocations w))) ?w"
    using lt assms by (subst withRetry_loop.simps) simp
  also have "\<dots> = (Inl (E (invocations ?w + r)),
        \<lparr>invocations = invocations ?w + r + 1,
         trace = trace ?w @ backoff_trace (opt_baseDelay options) (Suc a) (nat (opt_maxRetries options))\<rparr>)"
    using Suc(2,3) by (intro Suc(1)) simp_all
  finally show ?case
    by (simp add: invoked_def sleep_def backoff_trace_step[OF a_lt])
qed


text \<open>
  Claim C4. Against a provider that fails on every invocation, \<open>invokeWithRetry\<close> with a
  retry count that is not negative invokes it \<open>maxRetries + 1\<close> times, sleeps
  \<open>1000 * 2 ^ attempt\<close> milliseconds between consecutive attempts and not after the last,
  and throws the last error it received (wrapped in an \<open>Error\<close> when the provider
  rejected with a value that is not one). \<open>ErrorUtils.withRetry\<close> does the same with its
  own base delay and throws the last error as it is.
\<close>

theorem invokeWithRetry_always_failing:
  assumes "0 \<le> maxRetries" and "\<forall>n. llm n prompt = Inl (E n)"
  shows "invokeWithRetry llm prompt maxRetries w =
           (Inl (toError (E (invocations w + nat maxRetries))),
            \<lparr>invocations = invocations w + nat maxRetries + 1,
             trace = trace w @ concat (map (\<lambda>k. [Invoke, Sleep (1000 * 2 ^ k)]) [0..<nat maxRetries])
                       @ [Invoke]\<rparr>)
         \<and> withRetry (\<lambda>n. llm n prompt)
              \<lparr>opt_maxRetries = maxRetries, opt_baseDelay = base, opt_shouldRetry = (\<lambda>e. True)\<rparr> w =
           (Inl (E (invocations w + nat maxRetries)),
            \<lparr>invocations = invocations w + nat maxRetries + 1,
             trace = trace w @ concat (map (\<lambda>k. [Invoke, Sleep (base * 2 ^ k)]) [0..<nat maxRetries])
                       @ [Invoke]\<rparr>)"
proof -
  have "invokeWithRetry_loop llm prompt maxRetries 0 None w =
       (Inl (toError (E (invocations w + nat maxRetries))),
        \<lparr>invocations = invocations w + nat maxRetries + 1,
         trace = trace w @ backoff_trace 1000 0 (nat maxRetries)\<rparr>)"
    using assms by (intro invokeWithRetry_loop_failing) simp_all
  moreover
  let ?o = "\<lparr>opt_maxRetries = maxRetries, opt_baseDelay = base, opt_shouldRetry = (\<lambda>e. True)\<rparr>"
  have "withRetry_loop (\<lambda>n. llm n prompt) ?o 0 None w =
       (Inl (E (invocations w + nat (opt_maxRetries ?o))),
        \<lparr>invocations = invocations w + nat (opt_maxRetries ?o) + 1,
         trace = trace w @ backoff_trace (opt_baseDelay ?o) 0 (nat (opt_maxRetries ?o))\<rparr>)"
    using assms by (intro withRetry_loop_failing) simp_all
  ultimately show ?thesis
    by (simp add: invokeWithRetry_def withRetry_def backoff_trace_def)
qed

theorem invokeWithRetry_always_failing_witness:
  "(0::int) \<le> 2
   \<and> always_failing 2 (js ''p'') = Inl (Error (js ''timeout #2''))
   \<and> invokeWithRetry always_failing (js ''p'') 2 new_world =
       (Inl (Error (js ''timeout #2'')),
        \<lparr>invocations = 3, trace = [Invoke, Sleep 1000, Invoke, Sleep 2000, Invoke]\<rparr>)"
proof -
  have h: "\<forall>n. always_failing n (js ''p'') = Inl (Error (js ''timeout #'' @ to_radix 10 n))"
    by (simp add: always_failing_def)
  have n: "nat 2 = Suc (Suc 0)" by simp
  have v: "always_failing 2 (js ''p'') = Inl (Error (js ''timeout #2''))"
    by (simp add: always_failing_def to_radix.simps digit_char_def js_def)
  have "invokeWithRetry always_failing (js ''p'') 2 new_world =
       (Inl (Error (js ''timeout #2'')),
        \<lparr>invocations = 3, trace = [Invoke, Sleep 1000, Invoke, Sleep 2000, Invoke]\<rparr>)"
    using invokeWithRetry_always_failing[of 2 always_failing "js ''p''" _ new_world 1000,
        OF _ h, THEN conjunct1]
    by (simp add: n new_world_def to_radix.simps digit_char_def js_def eval_nat_numeral)
  with v show ?thesis by simp
qed

section \<open>Properties of batch translation\<close>

lemma Object_assign_Nil: "Object_assign m [] = m"
  by (simp add: Object_assign_def)

lemma Object_assign_Cons: "Object_assign m ((k, v) # s) = Object_assign (set_property m k v) s"
  by (simp add: Object_assign_def)

lemma Object_assign_append: "Object_assign m (s @ t) = Object_assign (Object_assign m s) t"
  by (simp add: Object_assign_def)

lemma set_property_other: "k \<noteq> k' \<Longrightarrow> set_property m k' v k = m k"
  by (simp add: set_property_def)

lemma set_property_same: "k \<noteq> js ''__proto__'' \<Longrightarrow> set_property m k v k = Some v"
  by (simp add: set_property_def)

lemma set_property_proto:
  "m (js ''__proto__'') = None \<Longrightarrow> set_property m k v (js ''__proto__'') = None"
  by (simp add: set_property_def)

lemma Object_assign_frame: "k \<notin> fst ` set s \<Longrightarrow> Object_assign m s k = m k"
  by (induction s arbitrary: m) (auto simp: Object_assign_Nil Object_assign_Cons set_property_other)

lemma Object_assign_proto:
  "m (js ''__proto__'') = None \<Longrightarrow> Object_assign m s (js ''__proto__'') = None"
  by (induction s arbitrary: m) (auto simp: Object_assign_Nil Object_assign_Cons set_property_proto)

lemma Object_assign_hit:
  "distinct (map fst s) \<Longrightarrow> (k, v) \<in> set s \<Longrightarrow> k \<noteq> js ''__proto__'' \<Longrightarrow>
   Object_assign m s k = Some v"
proof (induction s arbitrary: m)
  case Nil
  then show ?case by simp
next
  case (Cons p s)
  obtain k' v' where p: "p = (k', v')" by (cases p)
  show ?case
  proof (cases "p = (k, v)")
    case True
    then have "k \<notin> fst ` set s" using Cons.prems(1) by force
    then have "Object_assign (set_property m k v) s k = set_property m k v k"
      by (rule Object_assign_frame)
    with True Cons.prems(3) show ?thesis by (simp add: Object_assign_Cons set_property_same)
  next
    case False
    then have "(k, v) \<in> set s" using Cons.prems(2) by simp
    moreover have "distinct (map fst s)" using Cons.prems(1) by simp
    ultimately have "Object_assign (set_property m k' v') s k = Some v"
      using Cons.prems(3) by (intro Cons.IH) simp_all
    then show ?thesis by (simp add: p Object_assign_Cons)
  qed
qed

lemma foldl_Object_assign_concat: "foldl Object_assign m ws = Object_assign m (concat ws)"
  by (induction ws arbitrary: m) (simp_all add: Object_assign_Nil Object_assign_append)

lemma foldl_Object_assign_proto:
  "m (js ''__proto__'') = None \<Longrightarrow> foldl Object_assign m ws (js ''__proto__'') = None"
  by (simp add: foldl_Object_assign_concat Object_assign_proto)

lemma batchTranslate_loop_chunks:
  assumes "0 < bs"
  shows "batchTranslate_loop tb bs texts i m w =
           Some (foldl Object_assign m
                   (map2 written (outcomes tb w (chunks bs (drop i texts))) (chunks bs (drop i texts))),
                 foldl (\<lambda>w b. snd (tb b w)) w (chunks bs (drop i texts)))"
proof (induction "length texts - i" arbitrary: i m w rule: less_induct)
  case less
  show ?case
  proof (cases "i < length texts")
    case False
    then have "chunks bs (drop i texts) = []" by (subst chunks.simps) simp
    with False show ?thesis by (subst batchTranslate_loop.simps) simp
  next
    case True
    let ?b = "take bs (drop i texts)"
    have c: "chunks bs (drop i texts) = ?b # chunks bs (drop (i + bs) texts)"
      using True assms by (subst chunks.simps) (simp add: add.commute)
    have lt: "length texts - (i + bs) < length texts - i" using True assms by linarith
    obtain r w' where tb: "tb ?b w = (r, w')" by (cases "tb ?b w")
    show ?thesis
      using tb less[OF lt] unfolding c
      by (subst batchTranslate_loop.simps) (cases r; simp add: True)
  qed
qed

lemma concat_chunks: "0 < n \<Longrightarrow> concat (chunks n xs) = xs"
proof (induction n xs rule: chunks.induct)
  case (1 n xs)
  then show ?case by (subst chunks.simps) auto
qed

text \<open>
  Every call of \<open>translateBatch\<close> throws before it compiles a prompt or reaches the
  provider, so every batch takes the \<open>catch\<close> branch and the world is as it was.
\<close>

lemma translateBatch_throws:
  "translateBatch D retryCount texts w = (Inl (Error (js ''TemplateManager is not defined'')), w)"
  by (simp add: translateBatch_def resolve_identifier_def client_module_scope_def js_def)

lemma written_translateBatch:
  "map2 written (outcomes (translateBatch D retryCount) w cs) cs = cs"
  by (induction cs arbitrary: w) (simp_all add: translateBatch_throws)

lemma world_translateBatch:
  "foldl (\<lambda>w b. snd (translateBatch D retryCount b w)) w cs = w"
  by (induction cs) (simp_all add: translateBatch_throws)

lemma batchTranslateTexts_fallback:
  "0 < batchSize \<Longrightarrow>
   batchTranslateTexts D retryCount batchSize texts w = Some (Object_assign Map.empty texts, w)"
  by (simp add: batchTranslateTexts_def batchTranslate_loop_chunks written_translateBatch
      world_translateBatch foldl_Object_assign_concat concat_chunks)


text \<open>
  Claim C5 against the code. With a positive batch size \<open>batchTranslateTexts\<close> always
  returns a mapping, and no call reaches the provider: every batch fails. Every key of
  the texts other than \<open>__proto__\<close> is mapped to its original text. A key \<open>__proto__\<close>
  is not: the assignment of its text is lost, and the returned mapping has no entry for
  it, whatever the call for its batch did (here the loop is taken with any behaviour of
  \<open>translateBatch\<close>). For the texts whose one key is \<open>__proto__\<close>, with the text \<open>A\<close>,
  the mapping returned is empty.
\<close>

theorem batchTranslateTexts_drops_proto_key:
  "(0 < batchSize \<and> distinct (map fst texts) \<longrightarrow>
      (\<exists>translations. batchTranslateTexts D retryCount batchSize texts w = Some (translations, w)
         \<and> (\<forall>k v. (k, v) \<in> set texts \<and> k \<noteq> js ''__proto__'' \<longrightarrow> translations k = Some v)
         \<and> translations (js ''__proto__'') = None))
   \<and> (0 < batchSize \<longrightarrow>
      (\<exists>translations w'. batchTranslate_loop tb batchSize texts 0 Map.empty w = Some (translations, w')
         \<and> translations (js ''__proto__'') = None))
   \<and> batchTranslateTexts D retryCount 1 [(js ''__proto__'', js ''A'')] w = Some (Map.empty, w)"
proof (intro conjI impI)
  assume a: "0 < batchSize \<and> distinct (map fst texts)"
  then have r: "batchTranslateTexts D retryCount batchSize texts w
                  = Some (Object_assign Map.empty texts, w)"
    by (simp add: batchTranslateTexts_fallback)
  have "\<forall>k v. (k, v) \<in> set texts \<and> k \<noteq> js ''__proto__'' \<longrightarrow> Object_assign Map.empty texts k = Some v"
    using a by (auto intro: Object_assign_hit)
  moreover have "Object_assign Map.empty texts (js ''__proto__'') = None"
    by (rule Object_assign_proto) simp
  ultimately show "\<exists>translations. batchTranslateTexts D retryCount batchSize texts w = Some (translations, w)
         \<and> (\<forall>k v. (k, v) \<in> set texts \<and> k \<noteq> js ''__proto__'' \<longrightarrow> translations k = Some v)
         \<and> translations (js ''__proto__'') = None"
    unfolding r by blast
next
  assume "0 < batchSize"
  then show "\<exists>translations w'. batchTranslate_loop tb batchSize texts 0 Map.empty w = Some (translations, w')
         \<and> translations (js ''__proto__'') = None"
    by (simp add: batchTranslate_loop_chunks foldl_Object_assign_proto)
next
  have "batchTranslateTexts D retryCount 1 [(js ''__proto__'', js ''A'')] w
          = Some (Object_assign Map.empty [(js ''__proto__'', js ''A'')], w)"
    by (rule batchTranslateTexts_fallback) simp
  then show "batchTranslateTexts D retryCount 1 [(js ''__proto__'', js ''A'')] w = Some (Map.empty, w)"
    by (simp add: Object_assign_Cons Object_assign_Nil set_property_def)
qed

theorem batchTranslateTexts_drops_proto_key_witness:
  "(0::nat) < 2 \<and> distinct (map fst (proto_texts @ two_texts))
   \<and> (js ''k2'', js ''B'') \<in> set (proto_texts @ two_texts) \<and> js ''k2'' \<noteq> js ''__proto__''
   \<and> (\<exists>translations.
         batchTranslateTexts failing_deps 1 2 (proto_texts @ two_texts) new_world
           = Some (translations, new_world)
         \<and> translations (js ''k2'') = Some (js ''B'')
         \<and> translations (js ''__proto__'') = None)"
proof -
  have h: "(0::nat) < 2 \<and> distinct (map fst (proto_texts @ two_texts))"
    by (simp add: proto_texts_def two_texts_def js_def)
  have kv: "(js ''k2'', js ''B'') \<in> set (proto_texts @ two_texts) \<and> js ''k2'' \<noteq> js ''__proto__''"
    by (simp add: proto_texts_def two_texts_def js_def)
  from batchTranslateTexts_drops_proto_key[of 2 "proto_texts @ two_texts" failing_deps 1 new_world,
      THEN conjunct1, rule_format, OF h]
  obtain tr where
      t: "batchTranslateTexts failing_deps 1 2 (proto_texts @ two_texts) new_world
            = Some (tr, new_world)"
      "\<forall>k v. (k, v) \<in> set (proto_texts @ two_texts) \<and> k \<noteq> js ''__proto__'' \<longrightarrow> tr k = Some v"
      "tr (js ''__proto__'') = None"
    by blast
  from t(2) kv have "tr (js ''k2'') = Some (js ''B'')" by blast
  with h kv t(1,3) show ?thesis by blast
qed


section \<open>Properties of the merge\<close>

lemma collect_step_console: "console (collect_step P km f e) = console f"
  by (cases e) (simp add: collect_step_def Let_def)

lemma collectExtractedTexts_console:
  "console (foldl (collect_step P km) f es) = console f"
  by (induction es arbitrary: f) (simp_all add: collect_step_console)

lemma resolve_step_console:
  "console (snd (resolve_step L cfg (km, f) (now, tempKey, t)))
     = console f @ generateKey_console L cfg (keyGenerator f) t"
  by (simp add: resolve_step_def Let_def split: prod.splits)

lemma resolve_step_keyGenerator:
  "keyGenerator (snd (resolve_step L cfg (km, f) (now, tempKey, t)))
     = snd (generateKey L cfg (keyGenerator f) now t)"
  by (simp add: resolve_step_def Let_def split: prod.splits)

text \<open>The lines a run of \<open>resolveKeys\<close> adds: they depend on the generator, never on the store.\<close>

lemma resolveKeys_console_coupled:
  "keyGenerator f = keyGenerator f' \<Longrightarrow> console f = console f' \<Longrightarrow>
   console (snd (foldl (resolve_step L cfg) (km, f) es))
     = console (snd (foldl (resolve_step L cfg) (km', f') es))"
proof (induction es arbitrary: km km' f f')
  case Nil
  then show ?case by simp
next
  case (Cons e es)
  obtain now tempKey t where e: "e = (now, tempKey, t)" by (cases e)
  obtain km1 f1 where s1: "resolve_step L cfg (km, f) e = (km1, f1)"
    by (cases "resolve_step L cfg (km, f) e")
  obtain km2 f2 where s2: "resolve_step L cfg (km', f') e = (km2, f2)"
    by (cases "resolve_step L cfg (km', f') e")
  have "keyGenerator f1 = keyGenerator f2"
    using resolve_step_keyGenerator[of L cfg km f now tempKey t]
      resolve_step_keyGenerator[of L cfg km' f' now tempKey t] s1 s2 e Cons.prems(1) by simp
  moreover have "console f1 = console f2"
    using resolve_step_console[of L cfg km f now tempKey t]
      resolve_step_console[of L cfg km' f' now tempKey t] s1 s2 e Cons.prems by simp
  ultimately show ?case using Cons.IH[of f1 f2 km1 km2] s1 s2 by simp
qed

lemma generateKey_console_cases:
  "generateKey_console L cfg g t = []
   \<or> (generateKey_console L cfg g t = [ConsoleWarn (msg_pinyin_failed @ t)]
      \<and> pinyin_result L cfg t = None)"
  by (auto simp: generateKey_console_def convertToPinyin_console_def pinyin_result_def
           split: option.splits)

lemma resolveKeys_console_added:
  "\<exists>ws. console (snd (foldl (resolve_step L cfg) (km, f) es)) = console f @ ws
        \<and> set ws \<subseteq> (\<lambda>t. ConsoleWarn (msg_pinyin_failed @ t))
                       ` {t \<in> snd ` snd ` set es. pinyin_result L cfg t = None}"
proof (induction es arbitrary: km f)
  case Nil
  then show ?case by simp
next
  case (Cons e es)
  obtain now tempKey t where e: "e = (now, tempKey, t)" by (cases e)
  obtain km1 f1 where s1: "resolve_step L cfg (km, f) e = (km1, f1)"
    by (cases "resolve_step L cfg (km, f) e")
  have c1: "console f1 = console f @ generateKey_console L cfg (keyGenerator f) t"
    using resolve_step_console[of L cfg km f now tempKey t] s1 e by simp
  from Cons.IH[of km1 f1] obtain ws where
      ws: "console (snd (foldl (resolve_step L cfg) (km1, f1) es)) = console f1 @ ws"
          "set ws \<subseteq> (\<lambda>t. ConsoleWarn (msg_pinyin_failed @ t))
                       ` {t \<in> snd ` snd ` set es. pinyin_result L cfg t = None}"
    by blast
  let ?g = "generateKey_console L cfg (keyGenerator f) t"
  let ?W = "(\<lambda>t. ConsoleWarn (msg_pinyin_failed @ t))
              ` {t \<in> snd ` snd ` set (e # es). pinyin_result L cfg t = None}"
  have "console (snd (foldl (resolve_step L cfg) (km, f) (e # es))) = console f @ (?g @ ws)"
    using ws(1) c1 s1 by simp
  moreover have "set ?g \<subseteq> ?W"
  proof (cases "?g = []")
    case True
    then show ?thesis by simp
  next
    case False
    then have g: "?g = [ConsoleWarn (msg_pinyin_failed @ t)]" and n: "pinyin_result L cfg t = None"
      using generateKey_console_cases[of L cfg "keyGenerator f" t] by blast+
    have "t \<in> {t \<in> snd ` snd ` set (e # es). pinyin_result L cfg t = None}"
      using n e by simp
    then have "ConsoleWarn (msg_pinyin_failed @ t) \<in> ?W" by (rule imageI)
    then show ?thesis unfolding g by simp
  qed
  moreover have "set ws \<subseteq> ?W"
  proof -
    have "{t \<in> snd ` snd ` set es. pinyin_result L cfg t = None}
            \<subseteq> {t \<in> snd ` snd ` set (e # es). pinyin_result L cfg t = None}"
      by auto
    then have "(\<lambda>t. ConsoleWarn (msg_pinyin_failed @ t))
                 ` {t \<in> snd ` snd ` set es. pinyin_result L cfg t = None} \<subseteq> ?W"
      by (rule image_mono)
    with ws(2) show ?thesis by (rule subset_trans)
  qed
  ultimately have "console (snd (foldl (resolve_step L cfg) (km, f) (e # es))) = console f @ (?g @ ws)
       \<and> set (?g @ ws) \<subseteq> ?W"
    by simp
  then show ?case by (rule exI)
qed

lemma set_zip_snd_subset: "snd ` set (zip xs ys) \<subseteq> set ys"
  by (auto dest: set_zip_rightD)


text \<open>
  Claim C1, as the code has it. Storing a text under a final key is a plain assignment
  that looks at nothing the store holds. For a final key other than \<open>__proto__\<close>: when
  the key already holds the same text the store is unchanged; when it holds another
  text, the new text replaces it (the last writer wins), and all other keys keep their
  texts. No warning about a conflict is recorded. The variant that copies the texts
  under the keys of a mapping writes nothing to the console. The variant that generates
  the keys writes only what the key generator writes, a warning for a text whose
  transliteration threw: the lines it adds are the same whatever the store holds, and
  there are none when no transliteration throws.
\<close>

theorem merge_overwrites_silently:
  "(keyMapping tempKey = Some realKey \<and> realKey \<noteq> [] \<and> realKey \<noteq> js ''__proto__'' \<longrightarrow>
      allExtractedTexts (collectExtractedTexts P [(tempKey, text)] keyMapping fp)
        = (allExtractedTexts fp)(realKey \<mapsto> text)
      \<and> (allExtractedTexts fp realKey = Some text \<longrightarrow>
           collectExtractedTexts P [(tempKey, text)] keyMapping fp = fp))
   \<and> console (collectExtractedTexts P extractedTexts keyMapping fp) = console fp
   \<and> (fst (generateKey L cfg (keyGenerator fp) now text) \<noteq> js ''__proto__'' \<longrightarrow>
        allExtractedTexts (snd (resolveKeys L cfg [now] [(tempKey, text)] fp))
          = (allExtractedTexts fp)(fst (generateKey L cfg (keyGenerator fp) now text) \<mapsto> text))
   \<and> console (snd (resolveKeys L cfg [now] [(tempKey, text)] fp))
       = console fp @ generateKey_console L cfg (keyGenerator fp) text
   \<and> console (snd (resolveKeys L cfg clock extractedTexts (fp\<lparr>allExtractedTexts := store\<rparr>)))
       = console (snd (resolveKeys L cfg clock extractedTexts fp))
   \<and> (\<exists>ws. console (snd (resolveKeys L cfg clock extractedTexts fp)) = console fp @ ws
          \<and> set ws \<subseteq> (\<lambda>t. ConsoleWarn (msg_pinyin_failed @ t))
                         ` {t \<in> snd ` set extractedTexts. pinyin_result L cfg t = None})
   \<and> ((\<forall>t. pinyin_result L cfg t \<noteq> None) \<longrightarrow>
        console (snd (resolveKeys L cfg clock extractedTexts fp)) = console fp)"
proof -
  have c1: "keyMapping tempKey = Some realKey \<and> realKey \<noteq> [] \<and> realKey \<noteq> js ''__proto__'' \<longrightarrow>
      allExtractedTexts (collectExtractedTexts P [(tempKey, text)] keyMapping fp)
        = (allExtractedTexts fp)(realKey \<mapsto> text)
      \<and> (allExtractedTexts fp realKey = Some text \<longrightarrow>
           collectExtractedTexts P [(tempKey, text)] keyMapping fp = fp)"
  proof (intro impI)
    assume a: "keyMapping tempKey = Some realKey \<and> realKey \<noteq> [] \<and> realKey \<noteq> js ''__proto__''"
    then have g: "get_property P keyMapping tempKey = JSString realKey"
      by (simp add: get_property_def)
    have s: "set_property (allExtractedTexts fp) realKey text = (allExtractedTexts fp)(realKey \<mapsto> text)"
      using a by (simp add: set_property_def)
    have r: "collectExtractedTexts P [(tempKey, text)] keyMapping fp
             = fp\<lparr>allExtractedTexts := (allExtractedTexts fp)(realKey \<mapsto> text)\<rparr>"
      using a by (simp add: collectExtractedTexts_def collect_step_def g s)
    show "allExtractedTexts (collectExtractedTexts P [(tempKey, text)] keyMapping fp)
        = (allExtractedTexts fp)(realKey \<mapsto> text)
      \<and> (allExtractedTexts fp realKey = Some text \<longrightarrow>
           collectExtractedTexts P [(tempKey, text)] keyMapping fp = fp)"
      unfolding r by (simp add: map_upd_triv)
  qed
  have c2: "console (collectExtractedTexts P extractedTexts keyMapping fp) = console fp"
    by (simp add: collectExtractedTexts_def collectExtractedTexts_console)
  have c3: "fst (generateKey L cfg (keyGenerator fp) now text) \<noteq> js ''__proto__'' \<longrightarrow>
        allExtractedTexts (snd (resolveKeys L cfg [now] [(tempKey, text)] fp))
          = (allExtractedTexts fp)(fst (generateKey L cfg (keyGenerator fp) now text) \<mapsto> text)"
    by (simp add: resolveKeys_def resolve_step_def set_property_def Let_def split: prod.splits)
  have c4: "console (snd (resolveKeys L cfg [now] [(tempKey, text)] fp))
       = console fp @ generateKey_console L cfg (keyGenerator fp) text"
    by (simp add: resolveKeys_def resolve_step_console)
  have c5: "console (snd (resolveKeys L cfg clock extractedTexts (fp\<lparr>allExtractedTexts := store\<rparr>)))
       = console (snd (resolveKeys L cfg clock extractedTexts fp))"
    unfolding resolveKeys_def by (rule resolveKeys_console_coupled) simp_all
  obtain ws where ws: "console (snd (resolveKeys L cfg clock extractedTexts fp)) = console fp @ ws"
      "set ws \<subseteq> (\<lambda>t. ConsoleWarn (msg_pinyin_failed @ t))
                    ` {t \<in> snd ` snd ` set (zip clock extractedTexts). pinyin_result L cfg t = None}"
    unfolding resolveKeys_def
    using resolveKeys_console_added[of L cfg Map.empty fp "zip clock extractedTexts"] by blast
  have "snd ` snd ` set (zip clock extractedTexts) \<subseteq> snd ` set extractedTexts"
    using set_zip_snd_subset[of clock extractedTexts] by (rule image_mono)
  then have "{t \<in> snd ` snd ` set (zip clock extractedTexts). pinyin_result L cfg t = None}
          \<subseteq> {t \<in> snd ` set extractedTexts. pinyin_result L cfg t = None}"
    by blast
  then have "(\<lambda>t. ConsoleWarn (msg_pinyin_failed @ t))
                    ` {t \<in> snd ` snd ` set (zip clock extractedTexts). pinyin_result L cfg t = None}
          \<subseteq> (\<lambda>t. ConsoleWarn (msg_pinyin_failed @ t))
                    ` {t \<in> snd ` set extractedTexts. pinyin_result L cfg t = None}"
    by (rule image_mono)
  with ws(2) have ws2: "set ws \<subseteq> (\<lambda>t. ConsoleWarn (msg_pinyin_failed @ t))
                    ` {t \<in> snd ` set extractedTexts. pinyin_result L cfg t = None}"
    by (rule subset_trans)
  have c6: "\<exists>ws. console (snd (resolveKeys L cfg clock extractedTexts fp)) = console fp @ ws
          \<and> set ws \<subseteq> (\<lambda>t. ConsoleWarn (msg_pinyin_failed @ t))
                         ` {t \<in> snd ` set extractedTexts. pinyin_result L cfg t = None}"
    using ws(1) ws2 by (intro exI[of _ ws] conjI)
  have c7: "(\<forall>t. pinyin_result L cfg t \<noteq> None) \<longrightarrow>
        console (snd (resolveKeys L cfg clock extractedTexts fp)) = console fp"
  proof
    assume "\<forall>t. pinyin_result L cfg t \<noteq> None"
    then have "{t \<in> snd ` set extractedTexts. pinyin_result L cfg t = None} = {}" by simp
    with ws2 have "ws = []" by simp
    with ws(1) show "console (snd (resolveKeys L cfg clock extractedTexts fp)) = console fp" by simp
  qed
  from c1 c2 c3 c4 c5 c6 c7 show ?thesis by (intro conjI)
qed


theorem merge_overwrites_silently_witness:
  "[js ''__I18N_1__'' \<mapsto> js ''k1''] (js ''__I18N_1__'') = Some (js ''k1'') \<and> js ''k1'' \<noteq> []
   \<and> js ''k1'' \<noteq> js ''__proto__''
   \<and> allExtractedTexts (new_FileProcessor\<lparr>allExtractedTexts := [js ''k1'' \<mapsto> js ''A'']\<rparr>) (js ''k1'')
       = Some (js ''A'')
   \<and> collectExtractedTexts demo_prototype [(js ''__I18N_1__'', js ''A'')]
        [js ''__I18N_1__'' \<mapsto> js ''k1'']
        (new_FileProcessor\<lparr>allExtractedTexts := [js ''k1'' \<mapsto> js ''A'']\<rparr>)
       = new_FileProcessor\<lparr>allExtractedTexts := [js ''k1'' \<mapsto> js ''A'']\<rparr>
   \<and> console (snd (resolveKeys throwing_libs demo_cfg [1700000000000]
                       [(js ''__I18N_1__'', text_tijiao)] new_FileProcessor))
       = [ConsoleWarn (msg_pinyin_failed @ text_tijiao)]"
proof -
  let ?fp = "new_FileProcessor\<lparr>allExtractedTexts := [js ''k1'' \<mapsto> js ''A'']\<rparr>"
  let ?km = "[js ''__I18N_1__'' \<mapsto> js ''k1'']"
  have a: "?km (js ''__I18N_1__'') = Some (js ''k1'') \<and> js ''k1'' \<noteq> []
           \<and> js ''k1'' \<noteq> js ''__proto__''" by (simp add: js_def)
  have b: "allExtractedTexts ?fp (js ''k1'') = Some (js ''A'')" by simp
  from merge_overwrites_silently[of ?km "js ''__I18N_1__''" "js ''k1''" demo_prototype "js ''A''" ?fp,
      THEN conjunct1, rule_format, OF a, THEN conjunct2, rule_format, OF b]
  have c: "collectExtractedTexts demo_prototype [(js ''__I18N_1__'', js ''A'')] ?km ?fp = ?fp" .
  have d: "console (snd (resolveKeys throwing_libs demo_cfg [1700000000000]
                       [(js ''__I18N_1__'', text_tijiao)] new_FileProcessor))
       = [ConsoleWarn (msg_pinyin_failed @ text_tijiao)]"
    by (simp add: resolveKeys_def resolve_step_console generateKey_console_def
        convertToPinyin_console_def throwing_libs_def demo_cfg_def new_FileProcessor_def
        new_KeyGenerator_def)
  from a b c d show ?thesis by (intro conjI) simp_all
qed

text \<open>
  Claim C1 as stated fails. A first unit stores the text \<open>A\<close> under the key \<open>k1\<close>; a second
  unit whose text \<open>B\<close> has the same final key is merged: the store then holds \<open>B\<close>, and
  the console is as empty as before.
\<close>

theorem merge_first_writer_counterexample:
  "allExtractedTexts
     (collectExtractedTexts demo_prototype [(js ''__I18N_1__'', js ''A'')]
        [js ''__I18N_1__'' \<mapsto> js ''k1''] new_FileProcessor) (js ''k1'')
     = Some (js ''A'')
   \<and> allExtractedTexts
        (collectExtractedTexts demo_prototype [(js ''__I18N_1__'', js ''B'')]
          [js ''__I18N_1__'' \<mapsto> js ''k1'']
          (collectExtractedTexts demo_prototype [(js ''__I18N_1__'', js ''A'')]
             [js ''__I18N_1__'' \<mapsto> js ''k1''] new_FileProcessor)) (js ''k1'')
       = Some (js ''B'')
   \<and> js ''B'' \<noteq> js ''A''
   \<and> console
        (collectExtractedTexts demo_prototype [(js ''__I18N_1__'', js ''B'')]
          [js ''__I18N_1__'' \<mapsto> js ''k1'']
          (collectExtractedTexts demo_prototype [(js ''__I18N_1__'', js ''A'')]
             [js ''__I18N_1__'' \<mapsto> js ''k1''] new_FileProcessor)) = []"
  by (simp add: collectExtractedTexts_def collect_step_def get_property_def set_property_def
      new_FileProcessor_def js_def)

section \<open>Properties of the accessors\<close>

lemma read_KeyGenerator_bounds:
  "read_KeyGenerator h this = Some g \<Longrightarrow>
     existingKeys_at this < length h \<and> textToKeyMap_at this < length h"
  by (simp add: read_KeyGenerator_def split: if_splits)

lemma read_KeyGenerator_same_but:
  assumes "same_but a h h'" "existingKeys_at this \<noteq> a" "textToKeyMap_at this \<noteq> a"
  shows "read_KeyGenerator h' this = read_KeyGenerator h this"
  using assms by (auto simp: read_KeyGenerator_def same_but_def)

lemma list_update_same_but: "same_but a h h' \<Longrightarrow> same_but a (h[i := x]) (h'[i := x])"
proof (cases "i < length h")
  case True
  then show "same_but a h h' \<Longrightarrow> ?thesis" by (auto simp: same_but_def nth_list_update)
next
  case False
  then show "same_but a h h' \<Longrightarrow> ?thesis" by (simp add: same_but_def)
qed

lemma write_KeyGenerator_same_but:
  assumes "same_but a h h'"
  shows "same_but a (write_KeyGenerator h this g) (write_KeyGenerator h' this g)"
  unfolding write_KeyGenerator_def using assms by (intro list_update_same_but)

lemma read_KeyGenerator_alloc:
  "read_KeyGenerator h this = Some g \<Longrightarrow> read_KeyGenerator (snd (alloc obj h)) this = Some g"
  by (auto simp: read_KeyGenerator_def alloc_def nth_append split: if_splits)

lemma generateKey_heap_same_but:
  assumes "same_but a h h'" "existingKeys_at this \<noteq> a" "textToKeyMap_at this \<noteq> a"
      and "read_KeyGenerator h this = Some g"
  shows "\<exists>k h1 h1'. generateKey_heap L cfg this now text h = Some (k, h1)
           \<and> generateKey_heap L cfg this now text h' = Some (k, h1')
           \<and> k = fst (generateKey L cfg g now text)
           \<and> same_but a h1 h1'
           \<and> read_KeyGenerator h1' this = read_KeyGenerator h1 this"
proof -
  have r': "read_KeyGenerator h' this = Some g"
    using read_KeyGenerator_same_but[OF assms(1-3)] assms(4) by simp
  let ?g = "snd (generateKey L cfg g now text)"
  have sb: "same_but a (write_KeyGenerator h this ?g) (write_KeyGenerator h' this ?g)"
    using assms(1) by (rule write_KeyGenerator_same_but)
  have "read_KeyGenerator (write_KeyGenerator h' this ?g) this
          = read_KeyGenerator (write_KeyGenerator h this ?g) this"
    using sb assms(2,3) by (rule read_KeyGenerator_same_but)
  with sb show ?thesis by (simp add: generateKey_heap_def assms(4) r')
qed

lemma read_record_same_but:
  "same_but a h h' \<Longrightarrow> b \<noteq> a \<Longrightarrow> read_record h' b = read_record h b"
  by (auto simp: read_record_def same_but_def)

lemma storeText_heap_same_but:
  assumes "same_but a h h'" "b \<noteq> a" "read_record h b = Some r"
  shows "\<exists>h1 h1'. storeText_heap b realKey text h = Some h1
           \<and> storeText_heap b realKey text h' = Some h1'
           \<and> same_but a h1 h1' \<and> read_record h1' b = read_record h1 b
           \<and> read_record h1 b = Some (set_property r realKey text)"
proof -
  have r': "read_record h' b = Some r" using read_record_same_but[OF assms(1,2)] assms(3) by simp
  have bl: "b < length h" using assms(3) by (simp add: read_record_def split: if_splits)
  have "same_but a (h[b := RecordObj (set_property r realKey text)]) (h'[b := RecordObj (set_property r realKey text)])"
    using assms(1) by (rule list_update_same_but)
  moreover have "read_record (h[b := RecordObj (set_property r realKey text)]) b = Some (set_property r realKey text)"
    using bl by (simp add: read_record_def)
  moreover have "read_record (h'[b := RecordObj (set_property r realKey text)]) b = Some (set_property r realKey text)"
    using bl assms(1) by (simp add: read_record_def same_but_def)
  ultimately show ?thesis by (simp add: storeText_heap_def assms(3) r')
qed

lemma allocated_distinct:
  "allocated h this b \<Longrightarrow> b \<noteq> existingKeys_at this \<and> b \<noteq> textToKeyMap_at this
     \<and> existingKeys_at this \<noteq> textToKeyMap_at this"
  by (auto simp: allocated_def read_KeyGenerator_def read_record_def split: if_splits jsobject.splits)

lemma allocated_generateKey_heap:
  assumes "allocated h this b"
  shows "\<exists>k h'. generateKey_heap L cfg this now text h = Some (k, h') \<and> allocated h' this b"
proof -
  obtain g where g: "read_KeyGenerator h this = Some g" using assms by (auto simp: allocated_def)
  have d: "b \<noteq> existingKeys_at this" "b \<noteq> textToKeyMap_at this"
          "existingKeys_at this \<noteq> textToKeyMap_at this"
    using allocated_distinct[OF assms] by auto
  have bd: "existingKeys_at this < length h" "textToKeyMap_at this < length h"
    using read_KeyGenerator_bounds[OF g] by auto
  let ?g = "snd (generateKey L cfg g now text)"
  have "read_KeyGenerator (write_KeyGenerator h this ?g) this = Some ?g"
    using bd d by (simp add: read_KeyGenerator_def write_KeyGenerator_def)
  moreover have "read_record (write_KeyGenerator h this ?g) b = read_record h b"
    using d by (simp add: read_record_def write_KeyGenerator_def)
  ultimately show ?thesis using assms g by (simp add: generateKey_heap_def allocated_def)
qed

lemma allocated_storeText_heap:
  assumes "allocated h this b"
  shows "\<exists>h'. storeText_heap b realKey text h = Some h' \<and> allocated h' this b"
proof -
  obtain r where r: "read_record h b = Some r" using assms by (auto simp: allocated_def)
  have d: "b \<noteq> existingKeys_at this" "b \<noteq> textToKeyMap_at this"
    using allocated_distinct[OF assms] by auto
  have bl: "b < length h" using r by (simp add: read_record_def split: if_splits)
  have "read_KeyGenerator (h[b := RecordObj (set_property r realKey text)]) this = read_KeyGenerator h this"
    using d by (simp add: read_KeyGenerator_def)
  moreover have "read_record (h[b := RecordObj (set_property r realKey text)]) b \<noteq> None"
    using bl by (simp add: read_record_def)
  ultimately show ?thesis using assms r by (simp add: storeText_heap_def allocated_def)
qed

lemma same_but_write_copy: "same_but a h h' \<Longrightarrow> same_but a (h[a := obj]) h'"
  by (auto simp: same_but_def)

lemma client_run_ignores_copy:
  assumes "existingKeys_at this \<noteq> a" "textToKeyMap_at this \<noteq> a" "b \<noteq> a"
  shows "same_but a h h' \<Longrightarrow> allocated h' this b \<Longrightarrow>
     \<exists>ks h1 h1'. client_run L cfg this b a ops h = Some (ks, h1)
        \<and> client_run L cfg this b a (filter is_call ops) h' = Some (ks, h1')
        \<and> same_but a h1 h1' \<and> allocated h1' this b"
proof (induction ops arbitrary: h h')
  case Nil
  then show ?case by simp
next
  case (Cons op ops)
  have al: "allocated h this b"
    using Cons.prems read_KeyGenerator_same_but[of a h' h this] read_record_same_but[of a h' h b] assms
    by (auto simp: allocated_def same_but_def)
  show ?case
  proof (cases op)
    case (CallGenerateKey now text')
    obtain g where g: "read_KeyGenerator h this = Some g" using al by (auto simp: allocated_def)
    obtain k h2 h2' where s: "generateKey_heap L cfg this now text' h = Some (k, h2)"
        "generateKey_heap L cfg this now text' h' = Some (k, h2')" "same_but a h2 h2'"
      using generateKey_heap_same_but[OF Cons.prems(1) assms(1,2) g] by blast
    have "allocated h2' this b"
      using allocated_generateKey_heap[OF Cons.prems(2), of L cfg now text'] s(2) by simp
    from Cons.IH[OF s(3) this] s(1,2) CallGenerateKey show ?thesis by auto
  next
    case (CallStoreText realKey text')
    obtain r where r: "read_record h b = Some r" using al by (auto simp: allocated_def)
    obtain h2 h2' where s: "storeText_heap b realKey text' h = Some h2"
        "storeText_heap b realKey text' h' = Some h2'" "same_but a h2 h2'"
      using storeText_heap_same_but[OF Cons.prems(1) assms(3) r] by blast
    have "allocated h2' this b"
      using allocated_storeText_heap[OF Cons.prems(2), of realKey text'] s(2) by simp
    from Cons.IH[OF s(3) this] s(1,2) CallStoreText show ?thesis by auto
  next
    case (WriteCopy obj)
    have "same_but a (h[a := obj]) h'" using Cons.prems(1) by (rule same_but_write_copy)
    from Cons.IH[OF this Cons.prems(2)] WriteCopy show ?thesis by auto
  qed
qed

lemma same_but_refl: "same_but a h h"
  by (simp add: same_but_def)

lemma same_but_reads:
  assumes "same_but a h h'" "existingKeys_at this \<noteq> a" "textToKeyMap_at this \<noteq> a" "b \<noteq> a"
  shows "read_KeyGenerator h this = read_KeyGenerator h' this \<and> read_record h b = read_record h' b"
  using read_KeyGenerator_same_but[OF assms(1-3)] read_record_same_but[OF assms(1,4)] by simp

lemma copy_is_private:
  assumes al: "allocated h this b"
  shows "\<exists>ks hA hB. client_run L cfg this b (length h) ops (h @ [obj]) = Some (ks, hA)
           \<and> client_run L cfg this b (length h) (filter is_call ops) (h @ [obj]) = Some (ks, hB)
           \<and> read_KeyGenerator hA this = read_KeyGenerator hB this
           \<and> read_record hA b = read_record hB b"
proof -
  obtain g r where g: "read_KeyGenerator h this = Some g" and r: "read_record h b = Some r"
    using al by (auto simp: allocated_def)
  have ne: "existingKeys_at this \<noteq> length h" "textToKeyMap_at this \<noteq> length h" "b \<noteq> length h"
    using read_KeyGenerator_bounds[OF g] r by (auto simp: read_record_def split: if_splits)
  have al': "allocated (h @ [obj]) this b"
    using read_KeyGenerator_alloc[OF g, of obj] r
    by (auto simp: allocated_def alloc_def read_record_def nth_append split: if_splits)
  obtain ks hA hB where
    "client_run L cfg this b (length h) ops (h @ [obj]) = Some (ks, hA)"
    "client_run L cfg this b (length h) (filter is_call ops) (h @ [obj]) = Some (ks, hB)"
    "same_but (length h) hA hB"
    using client_run_ignores_copy[OF ne same_but_refl al', of L cfg ops] by blast
  then show ?thesis using same_but_reads[OF _ ne] by blast
qed


text \<open>
  Claim C10. \<open>getTextToKeyMap\<close>, \<open>getAllKeys\<close> and \<open>getExtractedTexts\<close> return a new object
  with the contents of the internal collection. Whatever the caller then does to that
  object, between any calls of \<open>generateKey\<close> and any stores of a text, the keys returned
  and the internal collections afterwards are those of the same calls without the
  caller's changes.
\<close>

theorem accessors_return_copies:
  assumes "allocated h this b"
  shows "(\<exists>a h1 g. read_KeyGenerator h this = Some g
            \<and> getTextToKeyMap this h = Some (a, h1) \<and> h1 ! a = MapObj (textToKeyMap g)
            \<and> (\<exists>ks hA hB. client_run L cfg this b a ops h1 = Some (ks, hA)
                 \<and> client_run L cfg this b a (filter is_call ops) h1 = Some (ks, hB)
                 \<and> read_KeyGenerator hA this = read_KeyGenerator hB this
                 \<and> read_record hA b = read_record hB b))
       \<and> (\<exists>a h1 g. read_KeyGenerator h this = Some g
            \<and> getAllKeys this h = Some (a, h1) \<and> h1 ! a = SetObj (existingKeys g)
            \<and> (\<exists>ks hA hB. client_run L cfg this b a ops h1 = Some (ks, hA)
                 \<and> client_run L cfg this b a (filter is_call ops) h1 = Some (ks, hB)
                 \<and> read_KeyGenerator hA this = read_KeyGenerator hB this
                 \<and> read_record hA b = read_record hB b))
       \<and> (\<exists>a h1 r. read_record h b = Some r
            \<and> getExtractedTexts b h = Some (a, h1) \<and> h1 ! a = RecordObj r
            \<and> (\<exists>ks hA hB. client_run L cfg this b a ops h1 = Some (ks, hA)
                 \<and> client_run L cfg this b a (filter is_call ops) h1 = Some (ks, hB)
                 \<and> read_KeyGenerator hA this = read_KeyGenerator hB this
                 \<and> read_record hA b = read_record hB b))"
proof -
  obtain g r where g: "read_KeyGenerator h this = Some g" and r: "read_record h b = Some r"
    using assms by (auto simp: allocated_def)
  show ?thesis
    using copy_is_private[OF assms, of L cfg ops]
    by (simp add: g r getTextToKeyMap_def getAllKeys_def getExtractedTexts_def alloc_def)
qed


theorem accessors_return_copies_witness:
  "allocated demo_heap demo_fields 2
   \<and> getTextToKeyMap demo_fields demo_heap
       = Some (3, demo_heap @ [MapObj [text_tijiao \<mapsto> js ''ti_jiao'']])
   \<and> (\<exists>hA. client_run demo_libs demo_cfg demo_fields 2 3 demo_ops
               (demo_heap @ [MapObj [text_tijiao \<mapsto> js ''ti_jiao'']])
             = Some ([js ''ti_jiao''], hA)
           \<and> read_KeyGenerator hA demo_fields = read_KeyGenerator demo_heap demo_fields)
   \<and> (\<exists>a h1 g. read_KeyGenerator demo_heap demo_fields = Some g
            \<and> getTextToKeyMap demo_fields demo_heap = Some (a, h1)
            \<and> h1 ! a = MapObj (textToKeyMap g)
            \<and> (\<exists>ks hA hB. client_run demo_libs demo_cfg demo_fields 2 a demo_ops h1 = Some (ks, hA)
                 \<and> client_run demo_libs demo_cfg demo_fields 2 a (filter is_call demo_ops) h1
                      = Some (ks, hB)
                 \<and> read_KeyGenerator hA demo_fields = read_KeyGenerator hB demo_fields
                 \<and> read_record hA 2 = read_record hB 2))"
proof -
  have al: "allocated demo_heap demo_fields 2"
    by (simp add: allocated_def read_KeyGenerator_def read_record_def demo_heap_def demo_fields_def)
  have g: "getTextToKeyMap demo_fields demo_heap
       = Some (3, demo_heap @ [MapObj [text_tijiao \<mapsto> js ''ti_jiao'']])"
    by (simp add: getTextToKeyMap_def read_KeyGenerator_def alloc_def demo_heap_def demo_fields_def)
  have k: "fst (generateKey demo_libs demo_cfg
             \<lparr>existingKeys = {js ''ti_jiao''}, textToKeyMap = [text_tijiao \<mapsto> js ''ti_jiao'']\<rparr>
             1700000000000 text_tijiao) = js ''ti_jiao''"
      "snd (generateKey demo_libs demo_cfg
             \<lparr>existingKeys = {js ''ti_jiao''}, textToKeyMap = [text_tijiao \<mapsto> js ''ti_jiao'']\<rparr>
             1700000000000 text_tijiao)
         = \<lparr>existingKeys = {js ''ti_jiao''}, textToKeyMap = [text_tijiao \<mapsto> js ''ti_jiao'']\<rparr>"
    by (simp_all add: generateKey_def demo_cfg_def)
  have r: "\<exists>hA. client_run demo_libs demo_cfg demo_fields 2 3 demo_ops
               (demo_heap @ [MapObj [text_tijiao \<mapsto> js ''ti_jiao'']])
             = Some ([js ''ti_jiao''], hA)
           \<and> read_KeyGenerator hA demo_fields = read_KeyGenerator demo_heap demo_fields"
    by (simp add: demo_ops_def demo_heap_def demo_fields_def generateKey_heap_def
        read_KeyGenerator_def write_KeyGenerator_def storeText_heap_def read_record_def k)
  from al g r accessors_return_copies[OF al, of demo_libs demo_cfg demo_ops, THEN conjunct1]
  show ?thesis by (intro conjI)
qed

end
